(* ===== verification/Sg_Prelude.thy ===== *)
theory Sg_Prelude
  imports Main "HOL-Library.State_Monad" "HOL-Library.Sublist"
begin

text \<open>
  The shared layer of the development: the exceptions the program throws and catches, the
  pieces of the C++ standard library its string handling rests on (decimal conversion with
  \<open>std::to_string\<close> and the \<open>std::sto*\<close> family, case folding, substring search), the
  sequencing of fallible stateful calls over \<open>HOL-Library.State_Monad\<close>, and the outcome
  logic in which the component theories prove what a stateful call does.
\<close>

named_theorems outcome_intros \<open>rules that reduce an outcome of a composed call to its parts\<close>
named_theorems key_simps \<open>facts that keep the Redis keys of different families apart\<close>

section \<open>Exceptions\<close>

text \<open>What the code throws: the standard exceptions it raises or lets pass.\<close>

datatype exn =
    InvalidArgument
  | OutOfRange
  | RuntimeError string
  | LogicError string
  | RedisException
  | JsonException

section \<open>Characters and strings of the standard library\<close>

definition is_digit :: "char \<Rightarrow> bool" where
  "is_digit c \<longleftrightarrow> 48 \<le> (of_char c :: nat) \<and> (of_char c :: nat) \<le> 57"

definition digit_val :: "char \<Rightarrow> nat" where
  "digit_val c = of_char c - 48"

definition digit_char :: "nat \<Rightarrow> char" where
  "digit_char d = char_of (48 + d)"

definition is_space :: "char \<Rightarrow> bool" where
  "is_space c \<longleftrightarrow> (of_char c :: nat) = 32 \<or> 9 \<le> (of_char c :: nat) \<and> (of_char c :: nat) \<le> 13"

definition to_lower :: "char \<Rightarrow> char" where
  "to_lower c = (let n = (of_char c :: nat) in if 65 \<le> n \<and> n \<le> 90 then char_of (n + 32) else c)"

definition to_upper :: "char \<Rightarrow> char" where
  "to_upper c = (let n = (of_char c :: nat) in if 97 \<le> n \<and> n \<le> 122 then char_of (n - 32) else c)"

text \<open>\<open>has_substr p s\<close> is \<open>s.find(p) != std::string::npos\<close>.\<close>

fun has_substr :: "string \<Rightarrow> string \<Rightarrow> bool" where
  "has_substr p [] \<longleftrightarrow> p = []"
| "has_substr p (c # s) \<longleftrightarrow> prefix p (c # s) \<or> has_substr p s"

text \<open>The part of a string before the first occurrence of a character, and the part from there on.\<close>

definition before :: "char \<Rightarrow> string \<Rightarrow> string" where
  "before c s = takeWhile (\<lambda>x. x \<noteq> c) s"

definition since :: "char \<Rightarrow> string \<Rightarrow> string" where
  "since c s = dropWhile (\<lambda>x. x \<noteq> c) s"

subsection \<open>Decimal printing: \<open>std::to_string\<close>\<close>

fun dec_of_nat :: "nat \<Rightarrow> string" where
  "dec_of_nat n =
     (if n < 10 then [digit_char n] else dec_of_nat (n div 10) @ [digit_char (n mod 10)])"

declare dec_of_nat.simps [simp del]

definition to_string :: "int \<Rightarrow> string" where
  "to_string i = (if i < 0 then CHR ''-'' # dec_of_nat (nat (- i)) else dec_of_nat (nat i))"

subsection \<open>Decimal parsing: \<open>std::stoi\<close>, \<open>std::stoll\<close>, \<open>std::stoul\<close>, \<open>std::stoull\<close>\<close>

definition dec_val :: "string \<Rightarrow> nat" where
  "dec_val ds = foldl (\<lambda>a c. 10 * a + digit_val c) 0 ds"

text \<open>
  The common part of the C conversions in base ten: leading white space, an optional sign, then
  the longest run of digits; what follows is ignored, and no digit at all is an error.
\<close>

definition scan_int :: "string \<Rightarrow> (bool \<times> nat) option" where
  "scan_int s =
     (let s1 = dropWhile is_space s;
          (neg, s2) = (case s1 of
             [] \<Rightarrow> (False, s1)
           | c # t \<Rightarrow> if c = CHR ''-'' then (True, t)
                      else if c = CHR ''+'' then (False, t) else (False, s1));
          ds = takeWhile is_digit s2
      in if ds = [] then None else Some (neg, dec_val ds))"

definition sto_signed :: "nat \<Rightarrow> string \<Rightarrow> exn + int" where
  "sto_signed w s =
     (case scan_int s of
        None \<Rightarrow> Inl InvalidArgument
      | Some (neg, m) \<Rightarrow>
          let v = (if neg then - int m else int m)
          in if v < - (2 ^ (w - 1)) \<or> 2 ^ (w - 1) \<le> v then Inl OutOfRange else Inr v)"

abbreviation stoi :: "string \<Rightarrow> exn + int" where "stoi \<equiv> sto_signed 32"
abbreviation stoll :: "string \<Rightarrow> exn + int" where "stoll \<equiv> sto_signed 64"

text \<open>
  The unsigned conversions accept a minus sign and negate modulo \<open>2 ^ 64\<close>, as \<open>strtoull\<close>
  does; \<open>unsigned long\<close> is 64 bits wide on the platforms the program builds for.
\<close>

definition stoull :: "string \<Rightarrow> exn + nat" where
  "stoull s =
     (case scan_int s of
        None \<Rightarrow> Inl InvalidArgument
      | Some (neg, m) \<Rightarrow>
          if 2 ^ 64 \<le> m then Inl OutOfRange
          else Inr (if neg then (2 ^ 64 - m) mod 2 ^ 64 else m))"

abbreviation stoul :: "string \<Rightarrow> exn + nat" where "stoul \<equiv> stoull"

subsection \<open>Printing and parsing agree\<close>

lemma digit_char_digit [simp]:
  assumes "d < 10"
  shows "is_digit (digit_char d)" "digit_val (digit_char d) = d"
  using assms by (simp_all add: is_digit_def digit_char_def digit_val_def)

lemma dec_of_nat_digits: "\<forall>c \<in> set (dec_of_nat n). is_digit c"
proof (induction n rule: dec_of_nat.induct)
  case (1 n)
  then show ?case by (cases "n < 10") (auto simp: dec_of_nat.simps [of n])
qed

lemma dec_of_nat_nonempty [simp]: "dec_of_nat n \<noteq> []"
  by (subst dec_of_nat.simps) simp

lemma dec_val_dec_of_nat [simp]: "dec_val (dec_of_nat n) = n"
proof (induction n rule: dec_of_nat.induct)
  case (1 n)
  then show ?case by (cases "n < 10") (auto simp: dec_of_nat.simps [of n] dec_val_def)
qed

lemma takeWhile_dec_of_nat [simp]: "takeWhile is_digit (dec_of_nat n) = dec_of_nat n"
  using dec_of_nat_digits [of n] by simp

lemma dec_of_nat_head:
  assumes "dec_of_nat n = c # t"
  shows "is_digit c"
  using assms dec_of_nat_digits [of n] by simp

lemma digit_not_space [simp]: "is_digit c \<Longrightarrow> \<not> is_space c"
  by (auto simp: is_digit_def is_space_def)

lemma digit_not_sign [simp]: "is_digit c \<Longrightarrow> c \<noteq> CHR ''-'' \<and> c \<noteq> CHR ''+''"
  by (auto simp: is_digit_def)

lemma scan_int_to_string [simp]: "scan_int (to_string i) = Some (i < 0, nat \<bar>i\<bar>)"
proof (cases "i < 0")
  case True
  then show ?thesis by (simp add: to_string_def scan_int_def is_space_def)
next
  case False
  obtain c t where ct: "dec_of_nat (nat i) = c # t"
    by (cases "dec_of_nat (nat i)") auto
  then have "is_digit c" by (rule dec_of_nat_head)
  moreover have "\<forall>d \<in> set t. is_digit d" "dec_val (c # t) = nat i"
    using ct dec_of_nat_digits [of "nat i"] dec_val_dec_of_nat [of "nat i"] by simp_all
  ultimately show ?thesis using False ct
    by (simp add: to_string_def scan_int_def takeWhile_eq_all_conv [THEN iffD2])
qed

lemma sto_signed_to_string:
  assumes "- (2 ^ (w - 1)) \<le> i" "i < 2 ^ (w - 1)"
  shows "sto_signed w (to_string i) = Inr i"
  using assms by (auto simp: sto_signed_def)

lemma to_string_inject [simp]: "to_string i = to_string j \<longleftrightarrow> i = j"
proof
  assume "to_string i = to_string j"
  then have "scan_int (to_string i) = scan_int (to_string j)" by simp
  then show "i = j" by simp linarith
qed simp

lemma stoull_to_string_neg:
  assumes "i < 0" "- (2 ^ 64) < i"
  shows "stoull (to_string i) = Inr (2 ^ 64 - nat (- i))"
  using assms by (auto simp: stoull_def)

lemma stoull_to_string:
  assumes "0 \<le> i" "i < 2 ^ 64"
  shows "stoull (to_string i) = Inr (nat i)"
  using assms by (auto simp: stoull_def)

subsection \<open>Splitting at a character\<close>

lemma before_since [simp]: "before c s @ since c s = s"
  by (simp add: before_def since_def)

lemma since_Cons: "since c s = d # r \<Longrightarrow> d = c"
  using hd_dropWhile [of "\<lambda>x. x \<noteq> c" s] by (auto simp: since_def)

lemma length_since: "length (before c s) + length (since c s) = length s"
  by (metis before_since length_append)

lemma drop_before [simp]: "drop (length (before c s)) s = since c s"
  by (simp add: before_def since_def dropWhile_eq_drop)

lemma take_before [simp]: "take (length (before c s)) s = before c s"
  by (simp add: before_def takeWhile_eq_take [symmetric])

lemma since_skip: "d \<noteq> c \<Longrightarrow> since c (d # s) = since c s \<and> before c (d # s) = d # before c s"
  by (simp add: since_def before_def)

lemma before_append: "c \<notin> set s \<Longrightarrow> before c (s @ c # t) = s \<and> since c (s @ c # t) = c # t"
  by (induction s) (auto simp: before_def since_def)

lemma before_all: "c \<notin> set s \<Longrightarrow> before c s = s \<and> since c s = []"
  by (induction s) (auto simp: before_def since_def)

subsection \<open>Filling a map\<close>

abbreviation put_pairs :: "('k \<times> 'v) list \<Rightarrow> ('k \<rightharpoonup> 'v) \<Rightarrow> ('k \<rightharpoonup> 'v)" where
  "put_pairs ps m \<equiv> foldl (\<lambda>m (k, v). m(k \<mapsto> v)) m ps"

lemma put_pairs_map: "put_pairs ps m = m ++ map_of (rev ps)"
  by (induction ps arbitrary: m) (auto simp: map_add_def fun_eq_iff split: option.splits)

section \<open>Sequencing fallible calls\<close>

text \<open>
  A call that may throw is a state computation whose value is \<open>exn + 'a\<close>. \<open>bindE m f\<close> runs
  \<open>m\<close> and then \<open>f\<close> on its value; an exception skips \<open>f\<close>, as an uncaught throw does.
\<close>

type_synonym ('w, 'a) call = "('w, exn + 'a) state"

abbreviation ret :: "'a \<Rightarrow> ('w, 'a) state" where "ret \<equiv> State_Monad.return"
abbreviation ok :: "'a \<Rightarrow> ('w, 'a) call" where "ok x \<equiv> State_Monad.return (Inr x)"
abbreviation throw :: "exn \<Rightarrow> ('w, 'a) call" where "throw e \<equiv> State_Monad.return (Inl e)"

definition bindE :: "('w, 'a) call \<Rightarrow> ('a \<Rightarrow> ('w, 'b) call) \<Rightarrow> ('w, 'b) call" where
  "bindE m f = do { x \<leftarrow> m; case x of Inl e \<Rightarrow> throw e | Inr a \<Rightarrow> f a }"

section \<open>Outcomes\<close>

text \<open>
  The outside world (a Redis server, a database) is an abstract state of which a \<open>view\<close> is
  observable. \<open>outcome view K m \<Phi>\<close> says: from every world that looks like \<open>K\<close>, the call
  \<open>m\<close> ends with a value and a view related by \<open>\<Phi>\<close>. Calls always end, so this is total
  correctness.
\<close>

definition outcome ::
  "('w \<Rightarrow> 'k) \<Rightarrow> 'k \<Rightarrow> ('w, 'a) state \<Rightarrow> ('a \<Rightarrow> 'k \<Rightarrow> bool) \<Rightarrow> bool" where
  "outcome view K m \<Phi> \<longleftrightarrow>
     (\<forall>w. view w = K \<longrightarrow> \<Phi> (fst (run_state m w)) (view (snd (run_state m w))))"

abbreviation yields ::
  "('w \<Rightarrow> 'k) \<Rightarrow> 'k \<Rightarrow> ('w, 'a) state \<Rightarrow> 'a \<Rightarrow> 'k \<Rightarrow> bool" where
  "yields view K m x K' \<equiv> outcome view K m (\<lambda>y L. y = x \<and> L = K')"

lemma outcomeI:
  assumes "\<And>w. view w = K \<Longrightarrow> \<Phi> (fst (run_state m w)) (view (snd (run_state m w)))"
  shows "outcome view K m \<Phi>"
  using assms by (simp add: outcome_def)

lemma outcomeD:
  assumes "outcome view (view w) m \<Phi>"
  shows "\<Phi> (fst (run_state m w)) (view (snd (run_state m w)))"
  using assms by (simp add: outcome_def)

lemma outcome_mono:
  assumes "outcome view K m \<Phi>" "\<And>x L. \<Phi> x L \<Longrightarrow> \<Psi> x L"
  shows "outcome view K m \<Psi>"
  using assms by (simp add: outcome_def)

lemma outcome_return [simp]: "\<Phi> x K \<Longrightarrow> outcome view K (State_Monad.return x) \<Phi>"
  by (simp add: outcome_def)

lemma outcome_bind:
  assumes "outcome view K m \<Phi>"
    and "\<And>x L. \<Phi> x L \<Longrightarrow> outcome view L (f x) \<Psi>"
  shows "outcome view K (State_Monad.bind m f) \<Psi>"
  using assms by (fastforce simp: outcome_def split: prod.splits)

lemma yields_bind:
  assumes "yields view K m x L"
    and "outcome view L (f x) \<Psi>"
  shows "outcome view K (State_Monad.bind m f) \<Psi>"
  using assms by (auto intro: outcome_bind)

lemma outcome_bindE:
  assumes "outcome view K m \<Phi>"
    and "\<And>a L. \<Phi> (Inr a) L \<Longrightarrow> outcome view L (f a) \<Psi>"
    and "\<And>e L. \<Phi> (Inl e) L \<Longrightarrow> \<Psi> (Inl e) L"
  shows "outcome view K (bindE m f) \<Psi>"
  unfolding bindE_def using assms by (auto intro!: outcome_bind [OF assms(1)] split: sum.splits)

lemma yields_bindE:
  assumes "yields view K m (Inr a) L"
    and "outcome view L (f a) \<Psi>"
  shows "outcome view K (bindE m f) \<Psi>"
  using assms by (auto intro!: outcome_bindE)

text \<open>A fact about views that every outcome of a call keeps.\<close>

definition keeps :: "('w \<Rightarrow> 'k) \<Rightarrow> ('k \<Rightarrow> bool) \<Rightarrow> ('w, 'a) state \<Rightarrow> bool" where
  "keeps view I m \<longleftrightarrow> (\<forall>K. I K \<longrightarrow> outcome view K m (\<lambda>_. I))"

lemma keepsD: "keeps view I m \<Longrightarrow> I (view w) \<Longrightarrow> I (view (snd (run_state m w)))"
  by (simp add: keeps_def outcome_def)

lemma keeps_return [outcome_intros]: "keeps view I (State_Monad.return x)"
  by (simp add: keeps_def)

lemma keeps_bind [outcome_intros]:
  assumes "keeps view I m" "\<And>x. keeps view I (f x)"
  shows "keeps view I (State_Monad.bind m f)"
  using assms by (auto simp: keeps_def intro: outcome_bind)

lemma keeps_bindE [outcome_intros]:
  assumes "keeps view I m" "\<And>x. keeps view I (f x)"
  shows "keeps view I (bindE m f)"
  unfolding bindE_def using assms
  by (auto intro!: keeps_bind keeps_return split: sum.splits)

lemma keeps_if [outcome_intros]:
  assumes "keeps view I m" "keeps view I n"
  shows "keeps view I (if b then m else n)"
  using assms by simp

lemma keeps_option [outcome_intros]:
  assumes "keeps view I m" "\<And>x. keeps view I (f x)"
  shows "keeps view I (case v of None \<Rightarrow> m | Some x \<Rightarrow> f x)"
  using assms by (cases v) auto

end
