(* ===== verification/Stream_Task.thy ===== *)
theory Stream_Task
  imports Sg_Prelude "HOL-Library.Word"
begin

text \<open>
  The data model of a stream session (\<open>include/StreamTask.h\<close>, the enumerations of
  \<open>include/ZlmHookCommon.h\<close>), the printing and parsing of its enumerations, the second,
  upper-case printer of \<open>src/util/EnumToString.cpp\<close> and the field serializer of
  \<open>src/util/StreamTaskSerializer.cpp\<close>. A \<open>std::chrono::system_clock::time_point\<close> is its
  count of nanoseconds since the epoch, an \<open>int\<close>; \<open>now\<close> is an argument wherever the code
  reads the clock. A \<open>std::map\<close> or \<open>std::unordered_map\<close> of strings is an association list
  read with \<open>map_of\<close>.
\<close>

section \<open>Enumerations\<close>

datatype StreamProtocol = RTMP | HTTP_FLV | HLS | RTSP | WebRTC | SRT | HTTP_TS | HTTP_FMP4 | Unknown

datatype StreamType = PUBLISHER | PLAYER

datatype StreamState = INITIALIZING | ACTIVE | INACTIVE | ERROR | CLOSED

fun toString_protocol :: "StreamProtocol \<Rightarrow> string" where
  "toString_protocol RTMP = ''rtmp''"
| "toString_protocol RTSP = ''rtsp''"
| "toString_protocol HLS = ''hls''"
| "toString_protocol HTTP_FLV = ''http-flv''"
| "toString_protocol HTTP_TS = ''http-ts''"
| "toString_protocol HTTP_FMP4 = ''http-fmp4''"
| "toString_protocol WebRTC = ''webrtc''"
| "toString_protocol SRT = ''srt''"
| "toString_protocol Unknown = ''unknown''"

definition parseProtocol :: "string \<Rightarrow> StreamProtocol" where
  "parseProtocol s0 =
     (let s = map to_lower s0 in
      if s = ''rtmp'' then RTMP
      else if s = ''rtsp'' then RTSP
      else if s = ''hls'' then HLS
      else if s = ''http-flv'' then HTTP_FLV
      else if s = ''http-ts'' then HTTP_TS
      else if s = ''http-fmp4'' then HTTP_FMP4
      else if s = ''webrtc'' then WebRTC
      else if s = ''srt'' then SRT
      else Unknown)"

fun toString_state :: "StreamState \<Rightarrow> string" where
  "toString_state INITIALIZING = ''initializing''"
| "toString_state ACTIVE = ''active''"
| "toString_state INACTIVE = ''inactive''"
| "toString_state ERROR = ''error''"
| "toString_state CLOSED = ''closed''"

definition parseState :: "string \<Rightarrow> StreamState" where
  "parseState s =
     (if s = ''initializing'' then INITIALIZING
      else if s = ''active'' then ACTIVE
      else if s = ''inactive'' then INACTIVE
      else if s = ''error'' then ERROR
      else if s = ''closed'' then CLOSED
      else INITIALIZING)"

fun toString_type :: "StreamType \<Rightarrow> string" where
  "toString_type t = (if t = PUBLISHER then ''publisher'' else ''player'')"

definition parseType :: "string \<Rightarrow> StreamType" where
  "parseType s = (if s = ''publisher'' then PUBLISHER else PLAYER)"

lemma map_to_lower_protocol [simp]: "map to_lower (toString_protocol p) = toString_protocol p"
  by (cases p) (simp_all add: to_lower_def)

lemma parseProtocol_toString [simp]: "parseProtocol (toString_protocol p) = p"
  unfolding parseProtocol_def map_to_lower_protocol Let_def by (cases p) simp_all

lemma parseState_toString [simp]: "parseState (toString_state st) = st"
  by (cases st) (simp_all add: parseState_def)

lemma parseType_toString [simp]: "parseType (toString_type t) = t"
  by (cases t) (simp_all add: parseType_def)

section \<open>The task record\<close>

record StreamTask =
  task_id :: "64 word"
  stream_name :: string
  client_id :: string
  task_type :: StreamType
  task_state :: StreamState
  protocol :: StreamProtocol
  server_ip :: string
  server_port :: int
  start_time :: int
  last_active_time :: int
  user_id :: string
  auth_token :: string
  region :: "string option"
  bandwidth_kbps :: "64 word option"
  player_count :: "32 word option"
  need_transcode :: bool
  need_record :: bool
  transcoding_profile :: string

text \<open>A value-initialised \<open>StreamTask\<close>: the default member initialisers.\<close>

definition default_task :: StreamTask where
  "default_task =
     \<lparr> task_id = 0, stream_name = '''', client_id = '''', task_type = PLAYER,
       task_state = INITIALIZING, protocol = Unknown, server_ip = '''', server_port = 0,
       start_time = 0, last_active_time = 0, user_id = '''', auth_token = '''',
       region = None, bandwidth_kbps = None, player_count = None,
       need_transcode = False, need_record = False, transcoding_profile = '''' \<rparr>"

definition update_active :: "int \<Rightarrow> StreamTask \<Rightarrow> StreamTask" where
  "update_active now t = t\<lparr>last_active_time := now\<rparr>"

text \<open>\<open>timeout_sec\<close> seconds, compared in nanoseconds as the mixed-unit \<open>operator>\<close> does.\<close>

definition is_timeout :: "int \<Rightarrow> int \<Rightarrow> StreamTask \<Rightarrow> bool" where
  "is_timeout now timeout_sec t \<longleftrightarrow> timeout_sec * 1000000000 < now - last_active_time t"

text \<open>\<open>std::chrono::duration_cast\<close> truncates towards zero.\<close>

definition duration_cast :: "int \<Rightarrow> int \<Rightarrow> int" where
  "duration_cast unit ns = (if ns < 0 then - ((- ns) div unit) else ns div unit)"

abbreviation to_ms :: "int \<Rightarrow> int" where "to_ms \<equiv> duration_cast 1000000"
abbreviation to_sec :: "int \<Rightarrow> int" where "to_sec \<equiv> duration_cast 1000000000"

definition duration_seconds :: "int \<Rightarrow> StreamTask \<Rightarrow> 64 word" where
  "duration_seconds now t = word_of_int (to_sec (now - start_time t))"

lemma duration_cast_mult [simp]: "0 < u \<Longrightarrow> duration_cast u (i * u) = i"
  using nonzero_mult_div_cancel_right [of u "- i"]
  by (auto simp: duration_cast_def mult_less_0_iff)

lemma is_timeout_iff:
  "is_timeout now s (update_active t0 t) \<longleftrightarrow> t0 + s * 1000000000 < now"
  by (auto simp: is_timeout_def update_active_def)

section \<open>\<open>EnumToString\<close>\<close>

fun EnumToString_type :: "StreamType \<Rightarrow> string" where
  "EnumToString_type PUBLISHER = ''PUBLISHER''"
| "EnumToString_type PLAYER = ''PLAYER''"

definition EnumFromString_type :: "string \<Rightarrow> StreamType" where
  "EnumFromString_type s = (if s = ''PUBLISHER'' then PUBLISHER else PLAYER)"

fun EnumToString_state :: "StreamState \<Rightarrow> string" where
  "EnumToString_state INITIALIZING = ''INITIALIZING''"
| "EnumToString_state ACTIVE = ''ACTIVE''"
| "EnumToString_state INACTIVE = ''INACTIVE''"
| "EnumToString_state ERROR = ''ERROR''"
| "EnumToString_state CLOSED = ''CLOSED''"

definition EnumFromString_state :: "string \<Rightarrow> StreamState" where
  "EnumFromString_state s =
     (if s = ''ACTIVE'' then ACTIVE
      else if s = ''INACTIVE'' then INACTIVE
      else if s = ''ERROR'' then ERROR
      else if s = ''CLOSED'' then CLOSED
      else INITIALIZING)"

fun EnumToString_protocol :: "StreamProtocol \<Rightarrow> string" where
  "EnumToString_protocol RTMP = ''RTMP''"
| "EnumToString_protocol RTSP = ''RTSP''"
| "EnumToString_protocol HLS = ''HLS''"
| "EnumToString_protocol HTTP_FLV = ''HTTP_FLV''"
| "EnumToString_protocol HTTP_TS = ''HTTP_TS''"
| "EnumToString_protocol HTTP_FMP4 = ''HTTP_FMP4''"
| "EnumToString_protocol WebRTC = ''WEBRTC''"
| "EnumToString_protocol SRT = ''SRT''"
| "EnumToString_protocol Unknown = ''UNKNOWN''"

definition EnumFromString_protocol :: "string \<Rightarrow> StreamProtocol" where
  "EnumFromString_protocol s0 =
     (let s = map to_upper s0 in
      if s = ''RTMP'' then RTMP
      else if s = ''RTSP'' then RTSP
      else if s = ''HLS'' then HLS
      else if s = ''HTTP_FLV'' then HTTP_FLV
      else if s = ''HTTP_TS'' \<or> s = ''HTTP-TS'' then HTTP_TS
      else if s = ''HTTP_FMP4'' \<or> s = ''HTTP-FMP4'' then HTTP_FMP4
      else if s = ''WEBRTC'' then WebRTC
      else if s = ''SRT'' then SRT
      else Unknown)"

lemma map_to_upper_EnumToString [simp]:
  "map to_upper (EnumToString_protocol p) = EnumToString_protocol p"
  by (cases p) (simp_all add: to_upper_def)

lemma EnumFromString_type_inverse [simp]: "EnumFromString_type (EnumToString_type t) = t"
  by (cases t) (simp_all add: EnumFromString_type_def)

lemma EnumFromString_state_inverse [simp]: "EnumFromString_state (EnumToString_state st) = st"
  by (cases st) (simp_all add: EnumFromString_state_def)

lemma EnumFromString_protocol_inverse [simp]:
  "EnumFromString_protocol (EnumToString_protocol p) = p"
  unfolding EnumFromString_protocol_def map_to_upper_EnumToString Let_def by (cases p) simp_all

section \<open>\<open>StreamTaskSerializer\<close>\<close>

definition time_point_to_string :: "int \<Rightarrow> string" where
  "time_point_to_string tp = to_string (to_sec tp)"

definition string_to_time_point :: "string \<Rightarrow> int" where
  "string_to_time_point s =
     (case stoll s of Inl _ \<Rightarrow> 0 | Inr seconds \<Rightarrow> seconds * 1000000000)"

definition get_field :: "(string \<times> string) list \<Rightarrow> string \<Rightarrow> string \<Rightarrow> string" where
  "get_field fs key default_val =
     (case map_of fs key of Some v \<Rightarrow> v | None \<Rightarrow> default_val)"

text \<open>
  \<open>serialize\<close> dereferences the two counters: with a null pointer the behaviour is undefined,
  which is the value \<^term>\<open>None\<close>.
\<close>

definition serialize :: "StreamTask \<Rightarrow> (string \<times> string) list option" where
  "serialize task =
     (case (bandwidth_kbps task, player_count task) of
        (Some bw, Some pc) \<Rightarrow>
          Some
           [(''task_id'', to_string (uint (task_id task))),
            (''stream_name'', stream_name task),
            (''client_id'', client_id task),
            (''type'', EnumToString_type (task_type task)),
            (''state'', EnumToString_state (task_state task)),
            (''protocol'', EnumToString_protocol (protocol task)),
            (''server_ip'', server_ip task),
            (''server_port'', to_string (server_port task)),
            (''start_time'', time_point_to_string (start_time task)),
            (''last_active_time'', time_point_to_string (last_active_time task)),
            (''user_id'', user_id task),
            (''auth_token'', auth_token task),
            (''bandwidth_kbps'', to_string (uint bw)),
            (''player_count'', to_string (uint pc)),
            (''need_transcode'', if need_transcode task then ''1'' else ''0''),
            (''need_record'', if need_record task then ''1'' else ''0''),
            (''transcoding_profile'', transcoding_profile task),
            (''region'', case region task of Some r \<Rightarrow> r | None \<Rightarrow> '''')]
      | _ \<Rightarrow> None)"

text \<open>
  \<open>deserialize\<close>: the conversions that throw make the whole call return \<open>std::nullopt\<close>. The
  player count is parsed at 64 bits and narrowed to 32.
\<close>

definition deserialize :: "(string \<times> string) list \<Rightarrow> StreamTask option" where
  "deserialize fs =
     (case (stoull (get_field fs ''task_id'' ''0''),
            stoi (get_field fs ''server_port'' ''0''),
            stoull (get_field fs ''bandwidth_kbps'' ''0''),
            stoul (get_field fs ''player_count'' ''0'')) of
        (Inr tid, Inr port, Inr bw, Inr pc) \<Rightarrow>
          Some
           \<lparr> task_id = of_nat tid,
             stream_name = get_field fs ''stream_name'' '''',
             client_id = get_field fs ''client_id'' '''',
             task_type = EnumFromString_type (get_field fs ''type'' ''''),
             task_state = EnumFromString_state (get_field fs ''state'' ''''),
             protocol = EnumFromString_protocol (get_field fs ''protocol'' ''''),
             server_ip = get_field fs ''server_ip'' '''',
             server_port = port,
             start_time = string_to_time_point (get_field fs ''start_time'' ''''),
             last_active_time = string_to_time_point (get_field fs ''last_active_time'' ''''),
             user_id = get_field fs ''user_id'' '''',
             auth_token = get_field fs ''auth_token'' '''',
             region = (let r = get_field fs ''region'' '''' in if r = '''' then None else Some r),
             bandwidth_kbps = Some (of_nat bw),
             player_count = Some (of_nat pc),
             need_transcode = (get_field fs ''need_transcode'' ''0'' = ''1''),
             need_record = (get_field fs ''need_record'' ''0'' = ''1''),
             transcoding_profile = get_field fs ''transcoding_profile'' '''' \<rparr>
      | _ \<Rightarrow> None)"

definition int32_range :: "int \<Rightarrow> bool" where
  "int32_range i \<longleftrightarrow> - (2 ^ 31) \<le> i \<and> i < 2 ^ 31"

definition int64_range :: "int \<Rightarrow> bool" where
  "int64_range i \<longleftrightarrow> - (2 ^ 63) \<le> i \<and> i < 2 ^ 63"

lemma stoi_to_string [simp]: "int32_range i \<Longrightarrow> stoi (to_string i) = Inr i"
  by (rule sto_signed_to_string) (simp_all add: int32_range_def)

lemma stoll_to_string [simp]: "int64_range i \<Longrightarrow> stoll (to_string i) = Inr i"
  by (rule sto_signed_to_string) (simp_all add: int64_range_def)

lemma stoull_uint [simp]:
  fixes w :: "'a::len word"
  assumes "LENGTH('a) \<le> 64"
  shows "stoull (to_string (uint w)) = Inr (unat w)"
proof -
  have "uint w < 2 ^ LENGTH('a)" by (rule uint_lt2p)
  also have "(2::int) ^ LENGTH('a) \<le> 2 ^ 64" using assms by (rule power_increasing) simp
  finally have "stoull (to_string (uint w)) = Inr (nat (uint w))"
    by (intro stoull_to_string) simp_all
  then show ?thesis by (simp only: unat_eq_nat_uint)
qed

lemma int64_range_to_sec: "int64_range tp \<Longrightarrow> int64_range (to_sec tp)"
  by (auto simp: int64_range_def duration_cast_def)

text \<open>What survives a trip through the field map: times lose their fraction of a second.\<close>

definition whole_second :: "int \<Rightarrow> int" where
  "whole_second tp = to_sec tp * 1000000000"

lemma string_to_time_point_inverse [simp]:
  "int64_range tp \<Longrightarrow> string_to_time_point (time_point_to_string tp) = whole_second tp"
  by (simp add: string_to_time_point_def time_point_to_string_def whole_second_def int64_range_to_sec)

lemma serialize_get_field:
  assumes "bandwidth_kbps t = Some bw" "player_count t = Some pc" "serialize t = Some fs"
  shows "get_field fs ''task_id'' d = to_string (uint (task_id t))"
    "get_field fs ''stream_name'' d = stream_name t"
    "get_field fs ''client_id'' d = client_id t"
    "get_field fs ''type'' d = EnumToString_type (task_type t)"
    "get_field fs ''state'' d = EnumToString_state (task_state t)"
    "get_field fs ''protocol'' d = EnumToString_protocol (protocol t)"
    "get_field fs ''server_ip'' d = server_ip t"
    "get_field fs ''server_port'' d = to_string (server_port t)"
    "get_field fs ''start_time'' d = time_point_to_string (start_time t)"
    "get_field fs ''last_active_time'' d = time_point_to_string (last_active_time t)"
    "get_field fs ''user_id'' d = user_id t"
    "get_field fs ''auth_token'' d = auth_token t"
    "get_field fs ''bandwidth_kbps'' d = to_string (uint bw)"
    "get_field fs ''player_count'' d = to_string (uint pc)"
    "get_field fs ''need_transcode'' d = (if need_transcode t then ''1'' else ''0'')"
    "get_field fs ''need_record'' d = (if need_record t then ''1'' else ''0'')"
    "get_field fs ''transcoding_profile'' d = transcoding_profile t"
    "get_field fs ''region'' d = (case region t of Some r \<Rightarrow> r | None \<Rightarrow> '''')"
  using assms by (simp_all add: serialize_def get_field_def, safe, simp_all)

lemma deserialize_serialize:
  assumes p: "bandwidth_kbps t = Some bw" "player_count t = Some pc" "serialize t = Some fs"
    and r: "int32_range (server_port t)" "int64_range (start_time t)" "int64_range (last_active_time t)"
  shows "deserialize fs =
    Some (t\<lparr>start_time := whole_second (start_time t),
            last_active_time := whole_second (last_active_time t),
            region := (if region t = Some '''' then None else region t)\<rparr>)"
  using p(1,2) r
  by (cases t) (simp add: deserialize_def serialize_get_field [OF p] split: option.splits)

text \<open>
  \<open>StreamTaskSerializer\<close> round trip: for a task whose counters are allocated and whose
  fields are in the range of their C++ types, parsing the serialized fields gives the task back,
  up to the two documented losses (times are kept at one-second resolution, an empty region
  string reads back as no region).
\<close>

theorem serializer_roundtrip:
  assumes "bandwidth_kbps t = Some bw" "player_count t = Some pc"
    and "int32_range (server_port t)" "int64_range (start_time t)" "int64_range (last_active_time t)"
  shows "\<exists>fs. serialize t = Some fs \<and>
    deserialize fs =
      Some (t\<lparr>start_time := whole_second (start_time t),
              last_active_time := whole_second (last_active_time t),
              region := (if region t = Some '''' then None else region t)\<rparr>)"
proof -
  obtain fs where "serialize t = Some fs"
    using assms(1,2) by (simp add: serialize_def)
  with deserialize_serialize [OF assms(1,2) this assms(3-5)] show ?thesis by blast
qed

theorem serializer_roundtrip_witness:
  "\<exists>fs. serialize (default_task\<lparr>bandwidth_kbps := Some 7, player_count := Some 2\<rparr>) = Some fs \<and>
    (\<exists>t'. deserialize fs = Some t' \<and> bandwidth_kbps t' = Some 7 \<and> player_count t' = Some 2)"
  using serializer_roundtrip [of "default_task\<lparr>bandwidth_kbps := Some 7, player_count := Some 2\<rparr>" 7 2]
  by (auto simp: default_task_def int32_range_def int64_range_def)

end
