(* ===== verification/Redis_Api.thy ===== *)
theory Redis_Api
  imports Stream_Task "HOL-Library.AList"
begin

text \<open>
  The Redis server behind the program, as the client library presents it. The server is not part
  of the repository: it is the parameter \<open>'w redis\<close> of every definition that talks to it,
  a record of the two entry points the code uses (one command, one pipeline) over an abstract
  world \<open>'w\<close>. What the code relies on are the laws of the locale \<open>redis_server\<close>: the
  documented effect and reply of each command on the keyspace, for a command that throws the
  documented uncertainty whether it was carried out. \<open>redis_reliable\<close> adds that no command
  throws but for a type error. An in-memory server satisfies both, so the laws can hold.
\<close>

section \<open>Commands and replies\<close>

text \<open>The exceptions of redis++: \<open>sw::redis::TimeoutError\<close> and every other \<open>sw::redis::Error\<close>.\<close>

datatype redis_exn = TimeoutError | OtherError

datatype redis_cmd =
    GET string
  | SETEX string int string
  | HMSET string "(string \<times> string) list"
  | HSET string "(string \<times> string) list"
  | HGETALL string
  | HDEL string string
  | HINCRBY string string int
  | SADD string "string list"
  | SREM string string
  | SMEMBERS string
  | SCARD string
  | ZADD string string int
  | ZRANGEBYSCORE string int int
  | ZREM string string
  | EXPIRE string int
  | DEL string
  | EXISTS string
  | PING

datatype redis_reply =
    Nil_Reply
  | Int_Reply int
  | Str_Reply string
  | Status_Reply string
  | List_Reply "string list"
  | Hash_Reply "(string \<times> string) list"
  | Err_Reply

record 'w redis =
  redis_exec :: "redis_cmd \<Rightarrow> ('w, redis_exn + redis_reply) state"
  redis_pipe :: "redis_cmd list \<Rightarrow> ('w, redis_exn + redis_reply list) state"

section \<open>The documented meaning of the commands\<close>

datatype rvalue =
    RStr string
  | RHash "string \<rightharpoonup> string"
  | RSet "string set"
  | RZSet "string \<rightharpoonup> int"

text \<open>A live key has a value and, if it is volatile, the time to live last set for it.\<close>

type_synonym keyspace = "string \<rightharpoonup> rvalue \<times> int option"

text \<open>
  A missing key reads as an empty collection; a key of another type is a type error, \<^term>\<open>None\<close>.
\<close>

definition hash_at :: "keyspace \<Rightarrow> string \<Rightarrow> (string \<rightharpoonup> string) option" where
  "hash_at K k = (case K k of None \<Rightarrow> Some Map.empty | Some (RHash m, _) \<Rightarrow> Some m | _ \<Rightarrow> None)"

definition set_at :: "keyspace \<Rightarrow> string \<Rightarrow> string set option" where
  "set_at K k = (case K k of None \<Rightarrow> Some {} | Some (RSet S, _) \<Rightarrow> Some S | _ \<Rightarrow> None)"

definition zset_at :: "keyspace \<Rightarrow> string \<Rightarrow> (string \<rightharpoonup> int) option" where
  "zset_at K k = (case K k of None \<Rightarrow> Some Map.empty | Some (RZSet z, _) \<Rightarrow> Some z | _ \<Rightarrow> None)"

definition ttl_at :: "keyspace \<Rightarrow> string \<Rightarrow> int option" where
  "ttl_at K k = (case K k of None \<Rightarrow> None | Some (_, t) \<Rightarrow> t)"

definition put_hash :: "string \<Rightarrow> (string \<rightharpoonup> string) \<Rightarrow> keyspace \<Rightarrow> keyspace" where
  "put_hash k m K = (if m = Map.empty then K(k := None) else K(k \<mapsto> (RHash m, ttl_at K k)))"

definition put_set :: "string \<Rightarrow> string set \<Rightarrow> keyspace \<Rightarrow> keyspace" where
  "put_set k S K = (if S = {} then K(k := None) else K(k \<mapsto> (RSet S, ttl_at K k)))"

definition put_zset :: "string \<Rightarrow> (string \<rightharpoonup> int) \<Rightarrow> keyspace \<Rightarrow> keyspace" where
  "put_zset k z K = (if z = Map.empty then K(k := None) else K(k \<mapsto> (RZSet z, ttl_at K k)))"

text \<open>
  The integer a hash field holds for HINCRBY: a missing field counts as 0; otherwise the field must
  be the decimal form of a signed 64-bit integer, and so must the sum.
\<close>

definition redis_int :: "string option \<Rightarrow> int option" where
  "redis_int v =
     (case v of
        None \<Rightarrow> Some 0
      | Some s \<Rightarrow> (case stoll s of
           Inl _ \<Rightarrow> None
         | Inr n \<Rightarrow> if to_string n = s then Some n else None))"

definition incr_result :: "(string \<rightharpoonup> string) \<Rightarrow> string \<Rightarrow> int \<Rightarrow> int option" where
  "incr_result m f i =
     (case redis_int (m f) of
        None \<Rightarrow> None
      | Some n \<Rightarrow> if int64_range (n + i) then Some (n + i) else None)"

fun apply_cmd :: "redis_cmd \<Rightarrow> keyspace \<Rightarrow> keyspace" where
  "apply_cmd (SETEX k t v) K = (if t \<le> 0 then K else K(k \<mapsto> (RStr v, Some t)))"
| "apply_cmd (HMSET k fs) K =
     (case hash_at K k of None \<Rightarrow> K | Some m \<Rightarrow> if fs = [] then K else put_hash k (m ++ map_of (rev fs)) K)"
| "apply_cmd (HSET k fs) K =
     (case hash_at K k of None \<Rightarrow> K | Some m \<Rightarrow> if fs = [] then K else put_hash k (m ++ map_of (rev fs)) K)"
| "apply_cmd (HDEL k f) K =
     (case hash_at K k of None \<Rightarrow> K | Some m \<Rightarrow> put_hash k (m(f := None)) K)"
| "apply_cmd (HINCRBY k f i) K =
     (case hash_at K k of
        None \<Rightarrow> K
      | Some m \<Rightarrow> (case incr_result m f i of
           None \<Rightarrow> K | Some n \<Rightarrow> put_hash k (m(f \<mapsto> to_string n)) K))"
| "apply_cmd (SADD k xs) K =
     (case set_at K k of None \<Rightarrow> K | Some S \<Rightarrow> put_set k (S \<union> set xs) K)"
| "apply_cmd (SREM k x) K = (case set_at K k of None \<Rightarrow> K | Some S \<Rightarrow> put_set k (S - {x}) K)"
| "apply_cmd (ZADD k m s) K =
     (case zset_at K k of None \<Rightarrow> K | Some z \<Rightarrow> put_zset k (z(m \<mapsto> s)) K)"
| "apply_cmd (ZREM k m) K =
     (case zset_at K k of None \<Rightarrow> K | Some z \<Rightarrow> put_zset k (z(m := None)) K)"
| "apply_cmd (EXPIRE k t) K =
     (case K k of
        None \<Rightarrow> K
      | Some (v, _) \<Rightarrow> if t \<le> 0 then K(k := None) else K(k \<mapsto> (v, Some t)))"
| "apply_cmd (DEL k) K = K(k := None)"
| "apply_cmd _ K = K"

definition bool_reply :: "bool \<Rightarrow> redis_reply" where
  "bool_reply b = Int_Reply (if b then 1 else 0)"

fun reply_ok :: "redis_cmd \<Rightarrow> keyspace \<Rightarrow> redis_reply \<Rightarrow> bool" where
  "reply_ok (GET k) K rep =
     (case K k of
        None \<Rightarrow> rep = Nil_Reply
      | Some (RStr s, _) \<Rightarrow> rep = Str_Reply s
      | _ \<Rightarrow> rep = Err_Reply)"
| "reply_ok (SETEX k t v) K rep = (rep = (if t \<le> 0 then Err_Reply else Status_Reply ''OK''))"
| "reply_ok (HMSET k fs) K rep =
     (case hash_at K k of
        None \<Rightarrow> rep = Err_Reply
      | Some m \<Rightarrow> rep = (if fs = [] then Err_Reply else Status_Reply ''OK''))"
| "reply_ok (HSET k fs) K rep =
     (case hash_at K k of
        None \<Rightarrow> rep = Err_Reply
      | Some m \<Rightarrow> rep = (if fs = [] then Err_Reply
                        else Int_Reply (int (card (fst ` set fs - dom m)))))"
| "reply_ok (HGETALL k) K rep =
     (case hash_at K k of
        None \<Rightarrow> rep = Err_Reply
      | Some m \<Rightarrow> \<exists>ps. rep = Hash_Reply ps \<and> distinct (map fst ps) \<and> map_of ps = m)"
| "reply_ok (HDEL k f) K rep =
     (case hash_at K k of None \<Rightarrow> rep = Err_Reply | Some m \<Rightarrow> rep = bool_reply (f \<in> dom m))"
| "reply_ok (HINCRBY k f i) K rep =
     (case hash_at K k of
        None \<Rightarrow> rep = Err_Reply
      | Some m \<Rightarrow> (case incr_result m f i of None \<Rightarrow> rep = Err_Reply | Some n \<Rightarrow> rep = Int_Reply n))"
| "reply_ok (SADD k xs) K rep =
     (case set_at K k of
        None \<Rightarrow> rep = Err_Reply
      | Some S \<Rightarrow> rep = (if xs = [] then Err_Reply else Int_Reply (int (card (set xs - S)))))"
| "reply_ok (SREM k x) K rep =
     (case set_at K k of None \<Rightarrow> rep = Err_Reply | Some S \<Rightarrow> rep = bool_reply (x \<in> S))"
| "reply_ok (SMEMBERS k) K rep =
     (case set_at K k of
        None \<Rightarrow> rep = Err_Reply
      | Some S \<Rightarrow> \<exists>xs. rep = List_Reply xs \<and> distinct xs \<and> set xs = S)"
| "reply_ok (SCARD k) K rep =
     (case set_at K k of None \<Rightarrow> rep = Err_Reply | Some S \<Rightarrow> rep = Int_Reply (int (card S)))"
| "reply_ok (ZADD k m s) K rep =
     (case zset_at K k of None \<Rightarrow> rep = Err_Reply | Some z \<Rightarrow> rep = bool_reply (m \<notin> dom z))"
| "reply_ok (ZRANGEBYSCORE k lo hi) K rep =
     (case zset_at K k of
        None \<Rightarrow> rep = Err_Reply
      | Some z \<Rightarrow> \<exists>xs. rep = List_Reply xs \<and> distinct xs
           \<and> set xs = {m. \<exists>s. z m = Some s \<and> lo \<le> s \<and> s \<le> hi}
           \<and> sorted (map (the \<circ> z) xs))"
| "reply_ok (ZREM k m) K rep =
     (case zset_at K k of None \<Rightarrow> rep = Err_Reply | Some z \<Rightarrow> rep = bool_reply (m \<in> dom z))"
| "reply_ok (EXPIRE k t) K rep = (rep = bool_reply (k \<in> dom K))"
| "reply_ok (DEL k) K rep = (rep = bool_reply (k \<in> dom K))"
| "reply_ok (EXISTS k) K rep = (rep = bool_reply (k \<in> dom K))"
| "reply_ok PING K rep = (rep = Status_Reply ''PONG'')"

fun replies_ok :: "redis_cmd list \<Rightarrow> keyspace \<Rightarrow> redis_reply list \<Rightarrow> bool" where
  "replies_ok [] K reps \<longleftrightarrow> reps = []"
| "replies_ok (c # cs) K reps \<longleftrightarrow>
     (\<exists>rep reps'. reps = rep # reps' \<and> reply_ok c K rep \<and> replies_ok cs (apply_cmd c K) reps')"

text \<open>A command the server answers with an error: a key of the wrong type, a bad argument.\<close>

definition rejected :: "redis_cmd \<Rightarrow> keyspace \<Rightarrow> bool" where
  "rejected c K \<longleftrightarrow> reply_ok c K Err_Reply"

text \<open>A volatile key may expire: it vanishes as if deleted.\<close>

definition expired :: "keyspace \<Rightarrow> string set \<Rightarrow> keyspace" where
  "expired K E = (\<lambda>k. if k \<in> E \<and> ttl_at K k \<noteq> None then None else K k)"

section \<open>The interface\<close>

locale redis_server =
  fixes R :: "'w redis" and view :: "'w \<Rightarrow> keyspace"
  assumes exec_law:
    "outcome view K (redis_exec R c)
       (\<lambda>res L. case res of
          Inr rep \<Rightarrow> rep \<noteq> Err_Reply \<and> reply_ok c K rep \<and> L = apply_cmd c K
        | Inl _ \<Rightarrow> L = K \<or> L = apply_cmd c K)"
    and pipe_law:
    "outcome view K (redis_pipe R cs)
       (\<lambda>res L. case res of
          Inr reps \<Rightarrow> replies_ok cs K reps \<and> L = fold apply_cmd cs K
        | Inl _ \<Rightarrow> \<exists>n \<le> length cs. L = fold apply_cmd (take n cs) K)"
begin

lemma keeps_exec:
  assumes "\<And>K. I K \<Longrightarrow> I (apply_cmd c K)"
  shows "keeps view I (redis_exec R c)"
  unfolding keeps_def
  using assms by (auto intro!: outcome_mono [OF exec_law] split: sum.splits)

lemma keeps_pipe:
  assumes "\<And>c K. c \<in> set cs \<Longrightarrow> I K \<Longrightarrow> I (apply_cmd c K)"
  shows "keeps view I (redis_pipe R cs)"
proof -
  have fold: "I (fold apply_cmd ds K)" if "set ds \<subseteq> set cs" "I K" for ds K
    using that assms by (induction ds arbitrary: K) auto
  show ?thesis
    unfolding keeps_def
    by (auto intro!: outcome_mono [OF pipe_law] fold split: sum.splits dest: in_set_takeD)
qed

end

locale redis_reliable = redis_server +
  assumes exec_total: "\<not> rejected c K \<Longrightarrow> outcome view K (redis_exec R c) (\<lambda>res _. \<exists>rep. res = Inr rep)"
    and pipe_total: "outcome view K (redis_pipe R cs) (\<lambda>res _. \<exists>reps. res = Inr reps)"
begin

lemma exec_ok:
  assumes "\<not> rejected c K"
  shows "outcome view K (redis_exec R c)
    (\<lambda>res L. \<exists>rep. res = Inr rep \<and> reply_ok c K rep \<and> L = apply_cmd c K)"
  using exec_law [of K c] exec_total [OF assms] by (fastforce simp: outcome_def)

lemma pipe_ok:
  "outcome view K (redis_pipe R cs)
    (\<lambda>res L. \<exists>reps. res = Inr reps \<and> replies_ok cs K reps \<and> L = fold apply_cmd cs K)"
  using pipe_law [of K cs] pipe_total [of K cs] by (fastforce simp: outcome_def)

end

end
