(* ===== verification/Redis_Memory.thy ===== *)
theory Redis_Memory
  imports Redis_Api
begin

text \<open>
  An executable in-memory server, over association lists, that satisfies the laws of
  \<open>redis_reliable\<close>: the laws are consistent, and the witnesses of the development evaluate the
  program's definitions against it.
\<close>

datatype mvalue =
    MStr string
  | MHash "(string \<times> string) list"
  | MSet "string list"
  | MZSet "(string \<times> int) list"

type_synonym mem = "(string \<times> mvalue \<times> int option) list"

fun mval_abs :: "mvalue \<Rightarrow> rvalue" where
  "mval_abs (MStr s) = RStr s"
| "mval_abs (MHash h) = RHash (map_of h)"
| "mval_abs (MSet xs) = RSet (set xs)"
| "mval_abs (MZSet z) = RZSet (map_of z)"

definition mem_view :: "mem \<Rightarrow> keyspace" where
  "mem_view st k = map_option (map_prod mval_abs id) (map_of st k)"

definition mem_hash :: "mem \<Rightarrow> string \<Rightarrow> (string \<times> string) list option" where
  "mem_hash st k = (case map_of st k of None \<Rightarrow> Some [] | Some (MHash h, _) \<Rightarrow> Some h | _ \<Rightarrow> None)"

definition mem_set :: "mem \<Rightarrow> string \<Rightarrow> string list option" where
  "mem_set st k = (case map_of st k of None \<Rightarrow> Some [] | Some (MSet s, _) \<Rightarrow> Some s | _ \<Rightarrow> None)"

definition mem_zset :: "mem \<Rightarrow> string \<Rightarrow> (string \<times> int) list option" where
  "mem_zset st k = (case map_of st k of None \<Rightarrow> Some [] | Some (MZSet z, _) \<Rightarrow> Some z | _ \<Rightarrow> None)"

definition mem_ttl :: "mem \<Rightarrow> string \<Rightarrow> int option" where
  "mem_ttl st k = (case map_of st k of None \<Rightarrow> None | Some (_, t) \<Rightarrow> t)"

definition mem_put :: "string \<Rightarrow> mvalue \<Rightarrow> bool \<Rightarrow> mem \<Rightarrow> mem" where
  "mem_put k v emp st = (if emp then AList.delete k st else AList.update k (v, mem_ttl st k) st)"

definition mem_incr :: "(string \<times> string) list \<Rightarrow> string \<Rightarrow> int \<Rightarrow> int option" where
  "mem_incr h f i = incr_result (map_of h) f i"

fun mem_eff :: "redis_cmd \<Rightarrow> mem \<Rightarrow> mem" where
  "mem_eff (SETEX k t v) st = (if t \<le> 0 then st else AList.update k (MStr v, Some t) st)"
| "mem_eff (HMSET k fs) st =
     (case mem_hash st k of
        None \<Rightarrow> st | Some h \<Rightarrow> if fs = [] then st else mem_put k (MHash (rev fs @ h)) False st)"
| "mem_eff (HSET k fs) st =
     (case mem_hash st k of
        None \<Rightarrow> st | Some h \<Rightarrow> if fs = [] then st else mem_put k (MHash (rev fs @ h)) False st)"
| "mem_eff (HDEL k f) st =
     (case mem_hash st k of
        None \<Rightarrow> st | Some h \<Rightarrow> let h' = AList.delete f h in mem_put k (MHash h') (h' = []) st)"
| "mem_eff (HINCRBY k f i) st =
     (case mem_hash st k of
        None \<Rightarrow> st
      | Some h \<Rightarrow> (case mem_incr h f i of
           None \<Rightarrow> st | Some n \<Rightarrow> mem_put k (MHash ((f, to_string n) # h)) False st))"
| "mem_eff (SADD k xs) st =
     (case mem_set st k of
        None \<Rightarrow> st | Some s \<Rightarrow> let s' = s @ xs in mem_put k (MSet s') (s' = []) st)"
| "mem_eff (SREM k x) st =
     (case mem_set st k of
        None \<Rightarrow> st | Some s \<Rightarrow> let s' = removeAll x s in mem_put k (MSet s') (s' = []) st)"
| "mem_eff (ZADD k m s) st =
     (case mem_zset st k of None \<Rightarrow> st | Some z \<Rightarrow> mem_put k (MZSet ((m, s) # z)) False st)"
| "mem_eff (ZREM k m) st =
     (case mem_zset st k of
        None \<Rightarrow> st | Some z \<Rightarrow> let z' = AList.delete m z in mem_put k (MZSet z') (z' = []) st)"
| "mem_eff (EXPIRE k t) st =
     (case map_of st k of
        None \<Rightarrow> st
      | Some (v, _) \<Rightarrow> if t \<le> 0 then AList.delete k st else AList.update k (v, Some t) st)"
| "mem_eff (DEL k) st = AList.delete k st"
| "mem_eff _ st = st"

definition mem_known :: "mem \<Rightarrow> string \<Rightarrow> redis_reply" where
  "mem_known st k = bool_reply (map_of st k \<noteq> None)"

fun mem_rep :: "redis_cmd \<Rightarrow> mem \<Rightarrow> redis_reply" where
  "mem_rep (GET k) st =
     (case map_of st k of None \<Rightarrow> Nil_Reply | Some (MStr s, _) \<Rightarrow> Str_Reply s | _ \<Rightarrow> Err_Reply)"
| "mem_rep (SETEX k t v) st = (if t \<le> 0 then Err_Reply else Status_Reply ''OK'')"
| "mem_rep (HMSET k fs) st =
     (case mem_hash st k of
        None \<Rightarrow> Err_Reply | Some h \<Rightarrow> if fs = [] then Err_Reply else Status_Reply ''OK'')"
| "mem_rep (HSET k fs) st =
     (case mem_hash st k of
        None \<Rightarrow> Err_Reply
      | Some h \<Rightarrow> if fs = [] then Err_Reply
                 else Int_Reply (int (card (fst ` set fs - fst ` set h))))"
| "mem_rep (HGETALL k) st =
     (case mem_hash st k of None \<Rightarrow> Err_Reply | Some h \<Rightarrow> Hash_Reply (AList.clearjunk h))"
| "mem_rep (HDEL k f) st =
     (case mem_hash st k of None \<Rightarrow> Err_Reply | Some h \<Rightarrow> bool_reply (map_of h f \<noteq> None))"
| "mem_rep (HINCRBY k f i) st =
     (case mem_hash st k of
        None \<Rightarrow> Err_Reply
      | Some h \<Rightarrow> (case mem_incr h f i of None \<Rightarrow> Err_Reply | Some n \<Rightarrow> Int_Reply n))"
| "mem_rep (SADD k xs) st =
     (case mem_set st k of
        None \<Rightarrow> Err_Reply
      | Some s \<Rightarrow> if xs = [] then Err_Reply else Int_Reply (int (card (set xs - set s))))"
| "mem_rep (SREM k x) st =
     (case mem_set st k of None \<Rightarrow> Err_Reply | Some s \<Rightarrow> bool_reply (x \<in> set s))"
| "mem_rep (SMEMBERS k) st =
     (case mem_set st k of None \<Rightarrow> Err_Reply | Some s \<Rightarrow> List_Reply (remdups s))"
| "mem_rep (SCARD k) st =
     (case mem_set st k of None \<Rightarrow> Err_Reply | Some s \<Rightarrow> Int_Reply (int (card (set s))))"
| "mem_rep (ZADD k m s) st =
     (case mem_zset st k of None \<Rightarrow> Err_Reply | Some z \<Rightarrow> bool_reply (map_of z m = None))"
| "mem_rep (ZRANGEBYSCORE k lo hi) st =
     (case mem_zset st k of
        None \<Rightarrow> Err_Reply
      | Some z \<Rightarrow> List_Reply (map fst (sort_key snd
           (filter (\<lambda>(m, s). lo \<le> s \<and> s \<le> hi) (AList.clearjunk z)))))"
| "mem_rep (ZREM k m) st =
     (case mem_zset st k of None \<Rightarrow> Err_Reply | Some z \<Rightarrow> bool_reply (map_of z m \<noteq> None))"
| "mem_rep (EXPIRE k t) st = mem_known st k"
| "mem_rep (DEL k) st = mem_known st k"
| "mem_rep (EXISTS k) st = mem_known st k"
| "mem_rep PING st = Status_Reply ''PONG''"

definition mem_exec :: "redis_cmd \<Rightarrow> (mem, redis_exn + redis_reply) state" where
  "mem_exec c = State (\<lambda>st. case mem_rep c st of
      Err_Reply \<Rightarrow> (Inl OtherError, st)
    | rep \<Rightarrow> (Inr rep, mem_eff c st))"

fun mem_run :: "redis_cmd list \<Rightarrow> mem \<Rightarrow> redis_reply list \<times> mem" where
  "mem_run [] st = ([], st)"
| "mem_run (c # cs) st = (case mem_run cs (mem_eff c st) of (reps, st') \<Rightarrow> (mem_rep c st # reps, st'))"

definition mem_pipe :: "redis_cmd list \<Rightarrow> (mem, redis_exn + redis_reply list) state" where
  "mem_pipe cs = State (\<lambda>st. case mem_run cs st of (reps, st') \<Rightarrow> (Inr reps, st'))"

definition mem_redis :: "mem redis" where
  "mem_redis = \<lparr>redis_exec = mem_exec, redis_pipe = mem_pipe\<rparr>"

section \<open>The memory server implements the documented meaning\<close>

lemma hash_at_mem [simp]: "hash_at (mem_view st) k = map_option map_of (mem_hash st k)"
  by (auto simp: hash_at_def mem_hash_def mem_view_def split: option.splits mvalue.splits)

lemma set_at_mem [simp]: "set_at (mem_view st) k = map_option set (mem_set st k)"
  by (auto simp: set_at_def mem_set_def mem_view_def split: option.splits mvalue.splits)

lemma zset_at_mem [simp]: "zset_at (mem_view st) k = map_option map_of (mem_zset st k)"
  by (auto simp: zset_at_def mem_zset_def mem_view_def split: option.splits mvalue.splits)

lemma ttl_at_mem [simp]: "ttl_at (mem_view st) k = mem_ttl st k"
  by (auto simp: ttl_at_def mem_ttl_def mem_view_def split: option.splits)

lemma mem_view_update [simp]: "mem_view (AList.update k e st) = (mem_view st)(k \<mapsto> map_prod mval_abs id e)"
  by (rule ext) (simp add: mem_view_def update_conv')

lemma mem_view_delete [simp]: "mem_view (AList.delete k st) = (mem_view st)(k := None)"
  by (rule ext) (simp add: mem_view_def delete_conv')

lemma map_of_empty_iff [simp]: "map_of xs = Map.empty \<longleftrightarrow> xs = []"
  using map_of_eq_empty_iff by fastforce

lemma mem_put_hash [simp]:
  "mem_view (mem_put k (MHash h) (h = []) st) = put_hash k (map_of h) (mem_view st)"
  "h \<noteq> [] \<Longrightarrow> mem_view (mem_put k (MHash h) False st) = put_hash k (map_of h) (mem_view st)"
  by (simp_all add: mem_put_def put_hash_def)

lemma mem_put_set [simp]:
  "mem_view (mem_put k (MSet s) (s = []) st) = put_set k (set s) (mem_view st)"
  by (simp add: mem_put_def put_set_def)

lemma mem_put_zset [simp]:
  "mem_view (mem_put k (MZSet z) (z = []) st) = put_zset k (map_of z) (mem_view st)"
  "z \<noteq> [] \<Longrightarrow> mem_view (mem_put k (MZSet z) False st) = put_zset k (map_of z) (mem_view st)"
  by (simp_all add: mem_put_def put_zset_def)

lemma map_of_delete [simp]: "map_of (AList.delete k al) = (map_of al)(k := None)"
  by (rule ext) (simp add: delete_conv')

lemma mem_view_None_iff [simp]: "mem_view st k = None \<longleftrightarrow> map_of st k = None"
  by (simp add: mem_view_def)

lemma mem_view_Some_iff:
  "mem_view st k = Some e \<longleftrightarrow> (\<exists>v t. map_of st k = Some (v, t) \<and> e = (mval_abs v, t))"
  by (auto simp: mem_view_def)

lemma in_dom_mem_view [simp]: "k \<in> dom (mem_view st) \<longleftrightarrow> map_of st k \<noteq> None"
  by (simp add: domIff)

lemma mem_eff_view: "mem_view (mem_eff c st) = apply_cmd c (mem_view st)"
proof (cases c)
  case (EXPIRE k t)
  then show ?thesis by (auto simp: mem_view_def [of st k] split: option.splits)
next
  case (SADD k xs)
  then show ?thesis by (simp add: Let_def del: append_is_Nil_conv split: option.splits)
qed (auto simp: Let_def mem_incr_def split: option.splits)

lemma mem_range_sorted:
  "sorted (map (the \<circ> map_of z) (map fst (sort_key snd (filter P (AList.clearjunk z)))))"
proof -
  have "the (map_of z (fst x)) = snd x" if "x \<in> set (AList.clearjunk z)" for x
    using that by (metis distinct_clearjunk map_of_clearjunk map_of_is_SomeI option.sel prod.collapse)
  then have "map (the \<circ> map_of z) (map fst (sort_key snd (filter P (AList.clearjunk z))))
      = map snd (sort_key snd (filter P (AList.clearjunk z)))"
    by simp
  then show ?thesis by (simp only: sorted_sort_key)
qed

lemma mem_range_distinct: "distinct (map fst (sort_key snd (filter P (AList.clearjunk z))))"
  using distinct_clearjunk [of z] by (auto simp: distinct_map inj_on_def)

lemma mem_range_set:
  "fst ` {x \<in> set (AList.clearjunk z). case x of (m, s) \<Rightarrow> lo \<le> s \<and> s \<le> hi} =
     {m. \<exists>s. map_of z m = Some s \<and> lo \<le> s \<and> s \<le> (hi::int)}"
proof -
  have "(m, s) \<in> set (AList.clearjunk z) \<longleftrightarrow> map_of z m = Some s" for m s
    by (metis distinct_clearjunk map_of_clearjunk map_of_eq_Some_iff)
  then show ?thesis by force
qed

lemma mem_rep_ok: "reply_ok c (mem_view st) (mem_rep c st)"
proof (cases c)
  case (ZRANGEBYSCORE k lo hi)
  then show ?thesis
    by (simp add: mem_range_sorted [simplified] mem_range_distinct mem_range_set split: option.splits)
next
  case (GET k)
  then show ?thesis by (auto simp: mem_view_def split: option.splits mvalue.splits)
next
  case (HGETALL k)
  then show ?thesis
    by (auto simp: distinct_clearjunk map_of_clearjunk split: option.splits)
qed (auto simp: bool_reply_def mem_known_def domIff mem_incr_def dom_map_of_conv_image_fst
      split: option.splits)

lemma mem_run_ok:
  "replies_ok cs (mem_view st) (fst (mem_run cs st)) \<and>
   mem_view (snd (mem_run cs st)) = fold apply_cmd cs (mem_view st)"
  by (induction cs arbitrary: st)
    (auto simp: mem_rep_ok case_prod_beta simp flip: mem_eff_view)

lemma run_mem_exec:
  "run_state (mem_exec c) st =
     (if mem_rep c st = Err_Reply then (Inl OtherError, st) else (Inr (mem_rep c st), mem_eff c st))"
  by (simp add: mem_exec_def split: redis_reply.splits)

lemma run_mem_pipe:
  "run_state (mem_pipe cs) st = (Inr (fst (mem_run cs st)), snd (mem_run cs st))"
  by (simp add: mem_pipe_def case_prod_beta)

lemmas run_mem = mem_redis_def run_mem_exec run_mem_pipe

interpretation mem: redis_reliable mem_redis mem_view
proof unfold_locales
  fix K c
  show "outcome mem_view K (redis_exec mem_redis c)
       (\<lambda>res L. case res of
          Inr rep \<Rightarrow> rep \<noteq> Err_Reply \<and> reply_ok c K rep \<and> L = apply_cmd c K
        | Inl _ \<Rightarrow> L = K \<or> L = apply_cmd c K)"
    by (auto simp: outcome_def run_mem mem_rep_ok mem_eff_view)
next
  fix K cs
  show "outcome mem_view K (redis_pipe mem_redis cs)
       (\<lambda>res L. case res of
          Inr reps \<Rightarrow> replies_ok cs K reps \<and> L = fold apply_cmd cs K
        | Inl _ \<Rightarrow> \<exists>n \<le> length cs. L = fold apply_cmd (take n cs) K)"
    by (auto simp: outcome_def run_mem mem_run_ok)
next
  fix K c
  assume "\<not> rejected c K"
  then have "mem_view st = K \<Longrightarrow> mem_rep c st \<noteq> Err_Reply" for st
    using mem_rep_ok [of c st] by (auto simp: rejected_def)
  then show "outcome mem_view K (redis_exec mem_redis c) (\<lambda>res _. \<exists>rep. res = Inr rep)"
    by (auto simp: outcome_def run_mem)
next
  fix K cs
  show "outcome mem_view K (redis_pipe mem_redis cs) (\<lambda>res _. \<exists>reps. res = Inr reps)"
    by (auto simp: outcome_def run_mem)
qed

end
