(* ===== verification/Cache_Manager.thy ===== *)
theory Cache_Manager
  imports Redis_Memory
begin

text \<open>
  \<open>CacheManager\<close> (\<open>include/CacheManager.h\<close>, \<open>src/cache/CacheManager.cpp\<close>): the wrapper
  around the Redis client through which every other component reaches the server. Each method
  returns its default value when the client is missing (\<open>_redis == nullptr\<close>) and when the
  command throws. The JSON-typed cache methods are with the authentication data in
  \<open>Auth_Repository\<close>. The lemmas state, for an initialised manager, the outcome of each method
  on the keyspace.
\<close>

section \<open>State and life cycle\<close>

record 'w CacheManager =
  cm_redis :: "'w redis option"
  cacheTTL :: int
  io_running :: bool

definition CACHE_MISS :: int where "CACHE_MISS = -1"
definition CACHE_ERROR :: int where "CACHE_ERROR = -2"

text \<open>The singleton before \<open>init\<close>.\<close>

definition new_CacheManager :: "'w CacheManager" where
  "new_CacheManager = \<lparr>cm_redis = None, cacheTTL = 300, io_running = False\<rparr>"

text \<open>
  \<open>init\<close>: \<open>connect\<close> stands for the construction of the redis++ client from the connection and
  pool options (the password is set only when it is not empty). A second call is ignored; a failed
  construction or a server that does not answer PONG leaves the manager uninitialised and throws.
\<close>

definition init ::
  "(string \<Rightarrow> int \<Rightarrow> string option \<Rightarrow> int \<Rightarrow> exn + 'w redis) \<Rightarrow> string \<Rightarrow> int \<Rightarrow> int \<Rightarrow> string \<Rightarrow>
   'w CacheManager \<Rightarrow> ('w, (exn + unit) \<times> 'w CacheManager) state" where
  "init connect host port pool_size password cm =
     (if io_running cm then ret (Inr (), cm)
      else
        (case connect host port (if password = '''' then None else Some password) pool_size of
           Inl e \<Rightarrow> ret (Inl e, cm\<lparr>io_running := False\<rparr>)
         | Inr redis_instance \<Rightarrow> do {
             pong \<leftarrow> redis_exec redis_instance PING;
             ret (case pong of
                Inl _ \<Rightarrow> (Inl RedisException, cm\<lparr>io_running := False\<rparr>)
              | Inr rep \<Rightarrow>
                  if rep \<noteq> Status_Reply ''PONG''
                  then (Inl (RuntimeError ''Redis server is not responding to PING''),
                        cm\<lparr>io_running := False\<rparr>)
                  else (Inr (), cm\<lparr>cm_redis := Some redis_instance, io_running := True\<rparr>))
           }))"

definition isReady :: "'w CacheManager \<Rightarrow> bool" where
  "isReady cm = io_running cm"

definition buildKey :: "string \<Rightarrow> string \<Rightarrow> string" where
  "buildKey streamKey clientId = ''auth:'' @ streamKey @ '':'' @ clientId"

section \<open>Strings and cached results\<close>

definition getString :: "'w CacheManager \<Rightarrow> string \<Rightarrow> ('w, string option) state" where
  "getString cm key =
     (case cm_redis cm of
        None \<Rightarrow> ret None
      | Some redis \<Rightarrow> do {
          res \<leftarrow> redis_exec redis (GET key);
          ret (case res of Inr (Str_Reply val) \<Rightarrow> Some val | _ \<Rightarrow> None)
        })"

definition setString :: "'w CacheManager \<Rightarrow> string \<Rightarrow> string \<Rightarrow> int \<Rightarrow> ('w, unit) state" where
  "setString cm key value ttl0 =
     (case cm_redis cm of
        None \<Rightarrow> ret ()
      | Some redis \<Rightarrow>
          let ttl = (if ttl0 \<le> 0 then cacheTTL cm else ttl0)
          in do { _ \<leftarrow> redis_exec redis (SETEX key ttl value); ret () })"

definition getAuthResultByKey :: "'w CacheManager \<Rightarrow> string \<Rightarrow> ('w, int) state" where
  "getAuthResultByKey cm cacheKey =
     (if \<not> io_running cm then ret CACHE_ERROR
      else do {
        v \<leftarrow> getString cm cacheKey;
        ret (case v of
               Some val \<Rightarrow> (case stoi val of Inr i \<Rightarrow> i | Inl _ \<Rightarrow> CACHE_ERROR)
             | None \<Rightarrow> CACHE_MISS)
      })"

definition setAuthResultByKey :: "'w CacheManager \<Rightarrow> string \<Rightarrow> int \<Rightarrow> ('w, unit) state" where
  "setAuthResultByKey cm cacheKey result =
     (if \<not> io_running cm then ret ()
      else setString cm cacheKey (to_string result) (cacheTTL cm))"

definition getAuthResult :: "'w CacheManager \<Rightarrow> string \<Rightarrow> string \<Rightarrow> ('w, int) state" where
  "getAuthResult cm streamKey clientId = getAuthResultByKey cm (buildKey streamKey clientId)"

definition setAuthResult :: "'w CacheManager \<Rightarrow> string \<Rightarrow> string \<Rightarrow> int \<Rightarrow> ('w, unit) state" where
  "setAuthResult cm streamKey clientId result =
     setAuthResultByKey cm (buildKey streamKey clientId) result"

definition setEmptyAuthDataToCache :: "'w CacheManager \<Rightarrow> string \<Rightarrow> int \<Rightarrow> ('w, unit) state" where
  "setEmptyAuthDataToCache cm key ttl0 =
     (let ttl = (if ttl0 \<le> 0 then cacheTTL cm else ttl0) in setString cm key ''__EMPTY__'' ttl)"

section \<open>Hashes\<close>

definition hashSet :: "'w CacheManager \<Rightarrow> string \<Rightarrow> (string \<times> string) list \<Rightarrow> ('w, bool) state" where
  "hashSet cm key fs =
     (case cm_redis cm of
        None \<Rightarrow> ret False
      | Some redis \<Rightarrow> do {
          res \<leftarrow> redis_exec redis (HMSET key fs);
          ret (case res of Inr _ \<Rightarrow> True | Inl _ \<Rightarrow> False)
        })"

definition hashGetAll :: "'w CacheManager \<Rightarrow> string \<Rightarrow> ('w, (string \<times> string) list) state" where
  "hashGetAll cm key =
     (case cm_redis cm of
        None \<Rightarrow> ret []
      | Some redis \<Rightarrow> do {
          res \<leftarrow> redis_exec redis (HGETALL key);
          ret (case res of Inr (Hash_Reply result) \<Rightarrow> result | _ \<Rightarrow> [])
        })"

text \<open>An integer reply; the client library throws on any other shape, which the caller catches.\<close>

definition int_of_reply :: "redis_exn + redis_reply \<Rightarrow> int option" where
  "int_of_reply res = (case res of Inr (Int_Reply n) \<Rightarrow> Some n | _ \<Rightarrow> None)"

definition positive_reply :: "redis_exn + redis_reply \<Rightarrow> bool" where
  "positive_reply res = (case int_of_reply res of Some n \<Rightarrow> 0 < n | None \<Rightarrow> False)"

definition hashDel :: "'w CacheManager \<Rightarrow> string \<Rightarrow> string \<Rightarrow> ('w, bool) state" where
  "hashDel cm key field =
     (case cm_redis cm of
        None \<Rightarrow> ret False
      | Some redis \<Rightarrow> do { res \<leftarrow> redis_exec redis (HDEL key field); ret (positive_reply res) })"

definition hashIncrBy :: "'w CacheManager \<Rightarrow> string \<Rightarrow> string \<Rightarrow> int \<Rightarrow> ('w, int) state" where
  "hashIncrBy cm key field increment =
     (case cm_redis cm of
        None \<Rightarrow> ret 0
      | Some redis \<Rightarrow> do {
          res \<leftarrow> redis_exec redis (HINCRBY key field increment);
          ret (case int_of_reply res of Some n \<Rightarrow> n | None \<Rightarrow> 0)
        })"

section \<open>Sets\<close>

definition setAddMany :: "'w CacheManager \<Rightarrow> string \<Rightarrow> string list \<Rightarrow> ('w, bool) state" where
  "setAddMany cm key members =
     (case cm_redis cm of
        None \<Rightarrow> ret False
      | Some redis \<Rightarrow> do {
          res \<leftarrow> redis_exec redis (SADD key members);
          ret (case res of Inr _ \<Rightarrow> True | Inl _ \<Rightarrow> False)
        })"

definition setAdd :: "'w CacheManager \<Rightarrow> string \<Rightarrow> string \<Rightarrow> ('w, bool) state" where
  "setAdd cm key member =
     (case cm_redis cm of
        None \<Rightarrow> ret False
      | Some redis \<Rightarrow> do {
          res \<leftarrow> redis_exec redis (SADD key [member]);
          ret (case res of Inr _ \<Rightarrow> True | Inl _ \<Rightarrow> False)
        })"

definition setRem :: "'w CacheManager \<Rightarrow> string \<Rightarrow> string \<Rightarrow> ('w, bool) state" where
  "setRem cm key member =
     (case cm_redis cm of
        None \<Rightarrow> ret False
      | Some redis \<Rightarrow> do { res \<leftarrow> redis_exec redis (SREM key member); ret (positive_reply res) })"

definition setMembers :: "'w CacheManager \<Rightarrow> string \<Rightarrow> ('w, string list) state" where
  "setMembers cm key =
     (case cm_redis cm of
        None \<Rightarrow> ret []
      | Some redis \<Rightarrow> do {
          res \<leftarrow> redis_exec redis (SMEMBERS key);
          ret (case res of Inr (List_Reply members) \<Rightarrow> members | _ \<Rightarrow> [])
        })"

definition setCard :: "'w CacheManager \<Rightarrow> string \<Rightarrow> ('w, nat) state" where
  "setCard cm key =
     (case cm_redis cm of
        None \<Rightarrow> ret 0
      | Some redis \<Rightarrow> do {
          res \<leftarrow> redis_exec redis (SCARD key);
          ret (case int_of_reply res of Some n \<Rightarrow> nat n | None \<Rightarrow> 0)
        })"

section \<open>Sorted sets\<close>

definition zsetAdd :: "'w CacheManager \<Rightarrow> string \<Rightarrow> int \<Rightarrow> string \<Rightarrow> ('w, bool) state" where
  "zsetAdd cm key score member =
     (case cm_redis cm of
        None \<Rightarrow> ret False
      | Some redis \<Rightarrow> do {
          res \<leftarrow> redis_exec redis (ZADD key member score);
          ret (case res of Inr _ \<Rightarrow> True | Inl _ \<Rightarrow> False)
        })"

definition zsetRangeByScore :: "'w CacheManager \<Rightarrow> string \<Rightarrow> int \<Rightarrow> int \<Rightarrow> ('w, string list) state" where
  "zsetRangeByScore cm key lo hi =
     (case cm_redis cm of
        None \<Rightarrow> ret []
      | Some redis \<Rightarrow> do {
          res \<leftarrow> redis_exec redis (ZRANGEBYSCORE key lo hi);
          ret (case res of Inr (List_Reply members) \<Rightarrow> members | _ \<Rightarrow> [])
        })"

definition zsetRem :: "'w CacheManager \<Rightarrow> string \<Rightarrow> string \<Rightarrow> ('w, bool) state" where
  "zsetRem cm key member =
     (case cm_redis cm of
        None \<Rightarrow> ret False
      | Some redis \<Rightarrow> do { res \<leftarrow> redis_exec redis (ZREM key member); ret (positive_reply res) })"

section \<open>Keys and health\<close>

definition keyExpire :: "'w CacheManager \<Rightarrow> string \<Rightarrow> int \<Rightarrow> ('w, bool) state" where
  "keyExpire cm key seconds0 =
     (case cm_redis cm of
        None \<Rightarrow> ret False
      | Some redis \<Rightarrow>
          let seconds = (if seconds0 \<le> 0 then cacheTTL cm else seconds0)
          in do { res \<leftarrow> redis_exec redis (EXPIRE key seconds); ret (positive_reply res) })"

definition keyDel :: "'w CacheManager \<Rightarrow> string \<Rightarrow> ('w, bool) state" where
  "keyDel cm key =
     (case cm_redis cm of
        None \<Rightarrow> ret False
      | Some redis \<Rightarrow> do { res \<leftarrow> redis_exec redis (DEL key); ret (positive_reply res) })"

definition hashKeyDel :: "'w CacheManager \<Rightarrow> string \<Rightarrow> ('w, bool) state" where
  "hashKeyDel cm key = keyDel cm key"

definition setDel :: "'w CacheManager \<Rightarrow> string \<Rightarrow> ('w, bool) state" where
  "setDel cm key = keyDel cm key"

definition keyExists :: "'w CacheManager \<Rightarrow> string \<Rightarrow> ('w, bool) state" where
  "keyExists cm key =
     (case cm_redis cm of
        None \<Rightarrow> ret False
      | Some redis \<Rightarrow> do { res \<leftarrow> redis_exec redis (EXISTS key); ret (positive_reply res) })"

definition ping_contract :: string where
  "ping_contract =
     ''Contract Violation: CacheManager::ping() called before init() or after shutdown()''"

definition ping :: "'w CacheManager \<Rightarrow> ('w, bool) call" where
  "ping cm =
     (case cm_redis cm of
        None \<Rightarrow> throw (LogicError ping_contract)
      | Some redis \<Rightarrow>
          if \<not> io_running cm then throw (LogicError ping_contract)
          else do {
            res \<leftarrow> redis_exec redis PING;
            ok (case res of Inr rep \<Rightarrow> rep = Status_Reply ''PONG'' | Inl _ \<Rightarrow> False)
          })"

text \<open>
  A pipeline: the commands queued on the object \<open>createPipeline()\<close> returns, and its \<open>exec()\<close>.
  Without a client \<open>createPipeline\<close> throws \<open>std::runtime_error\<close>, which the callers' handlers
  for \<open>sw::redis::Error\<close> let pass.
\<close>

definition exec_pipeline ::
  "'w CacheManager \<Rightarrow> redis_cmd list \<Rightarrow> ('w, redis_exn + redis_reply list) call" where
  "exec_pipeline cm cmds =
     (case cm_redis cm of
        None \<Rightarrow> throw (RuntimeError ''CacheManager not initialized'')
      | Some redis \<Rightarrow> do { res \<leftarrow> redis_pipe redis cmds; ok res })"

section \<open>Outcomes for an initialised manager\<close>

definition ready :: "'w redis \<Rightarrow> 'w CacheManager" where
  "ready R = \<lparr>cm_redis = Some R, cacheTTL = 300, io_running = True\<rparr>"

lemma ready_simps [simp]:
  "cm_redis (ready R) = Some R" "cacheTTL (ready R) = 300" "io_running (ready R)"
  by (simp_all add: ready_def)

lemma bool_reply_neq [simp]: "bool_reply b \<noteq> Err_Reply" "Err_Reply \<noteq> bool_reply b"
  by (simp_all add: bool_reply_def)

lemma int_of_reply_Int [simp]: "int_of_reply (Inr (Int_Reply n)) = Some n"
  by (simp add: int_of_reply_def)

lemma positive_bool_reply [simp]: "positive_reply (Inr (bool_reply b)) = b"
  by (simp add: positive_reply_def bool_reply_def)

context redis_reliable
begin

text \<open>One command and a function of its reply: the shape of every method of the wrapper.\<close>

lemma exec_then:
  assumes "\<not> rejected c K" "\<And>rep. reply_ok c K rep \<Longrightarrow> \<Phi> (f (Inr rep)) (apply_cmd c K)"
  shows "outcome view K (do { res \<leftarrow> redis_exec R c; ret (f res) }) \<Phi>"
  using assms by (auto intro!: outcome_bind [OF exec_ok])

lemma hashSet_ok:
  assumes "hash_at K k = Some m" "fs \<noteq> []"
  shows "yields view K (hashSet (ready R) k fs) True (put_hash k (m ++ map_of (rev fs)) K)"
  unfolding hashSet_def using assms by (auto intro!: exec_then simp: rejected_def)

lemma hashGetAll_ok:
  assumes "hash_at K k = Some m"
  shows "outcome view K (hashGetAll (ready R) k) (\<lambda>ps L. map_of ps = m \<and> L = K)"
  unfolding hashGetAll_def using assms by (auto intro!: exec_then simp: rejected_def)

lemma hashIncrBy_ok:
  assumes "hash_at K k = Some m" "incr_result m f i = Some n"
  shows "yields view K (hashIncrBy (ready R) k f i) n (put_hash k (m(f \<mapsto> to_string n)) K)"
  unfolding hashIncrBy_def using assms by (auto intro!: exec_then simp: rejected_def)

lemma setAdd_ok:
  assumes "set_at K k = Some S"
  shows "yields view K (setAdd (ready R) k x) True (put_set k (insert x S) K)"
  unfolding setAdd_def using assms by (auto intro!: exec_then simp: rejected_def)

lemma setMembers_ok:
  assumes "set_at K k = Some S"
  shows "outcome view K (setMembers (ready R) k) (\<lambda>xs L. distinct xs \<and> set xs = S \<and> L = K)"
  unfolding setMembers_def using assms by (auto intro!: exec_then simp: rejected_def)

lemma setCard_ok:
  assumes "set_at K k = Some S"
  shows "yields view K (setCard (ready R) k) (card S) K"
  unfolding setCard_def using assms by (auto intro!: exec_then simp: rejected_def)

lemma zsetAdd_ok:
  assumes "zset_at K k = Some z"
  shows "yields view K (zsetAdd (ready R) k s x) True (put_zset k (z(x \<mapsto> s)) K)"
  unfolding zsetAdd_def using assms by (auto intro!: exec_then simp: rejected_def)

lemma zsetRem_ok:
  assumes "zset_at K k = Some z"
  shows "yields view K (zsetRem (ready R) k x) (x \<in> dom z) (put_zset k (z(x := None)) K)"
  unfolding zsetRem_def using assms by (auto intro!: exec_then simp: rejected_def)

lemma zsetRangeByScore_ok:
  assumes "zset_at K k = Some z"
  shows "outcome view K (zsetRangeByScore (ready R) k lo hi)
    (\<lambda>xs L. distinct xs \<and> set xs = {m. \<exists>s. z m = Some s \<and> lo \<le> s \<and> s \<le> hi} \<and> L = K)"
  unfolding zsetRangeByScore_def using assms by (auto intro!: exec_then simp: rejected_def)

lemma keyExpire_ok:
  assumes "K k = Some (v, t)" "0 < s"
  shows "yields view K (keyExpire (ready R) k s) True (K(k \<mapsto> (v, Some s)))"
  unfolding keyExpire_def using assms by (auto intro!: exec_then simp: rejected_def)

lemma keyDel_ok: "yields view K (keyDel (ready R) k) (k \<in> dom K) (K(k := None))"
  unfolding keyDel_def by (auto intro!: exec_then simp: rejected_def)

lemma keyExists_ok: "yields view K (keyExists (ready R) k) (k \<in> dom K) K"
  unfolding keyExists_def by (auto intro!: exec_then simp: rejected_def)

lemma exec_pipeline_ok:
  "outcome view K (exec_pipeline (ready R) cs)
    (\<lambda>res L. \<exists>reps. res = Inr (Inr reps) \<and> replies_ok cs K reps \<and> L = fold apply_cmd cs K)"
  unfolding exec_pipeline_def
  by (auto intro!: outcome_bind [OF pipe_ok])

lemma getString_ok:
  assumes "K k = None \<or> (\<exists>s t. K k = Some (RStr s, t))"
  shows "yields view K (getString (ready R) k)
    (case K k of Some (RStr s, _) \<Rightarrow> Some s | _ \<Rightarrow> None) K"
  unfolding getString_def using assms by (auto intro!: exec_then simp: rejected_def)

lemma setString_ok:
  "yields view K (setString (ready R) k v t) ()
     (K(k \<mapsto> (RStr v, Some (if t \<le> 0 then 300 else t))))"
  unfolding setString_def Let_def by (auto intro!: exec_then simp: rejected_def)

end

end
