(* ===== verification/Stream_State.thy ===== *)
theory Stream_State
  imports Cache_Manager
begin

text \<open>
  \<open>RedisStreamStateManager\<close> (\<open>src/repository/RedisStreamStateManager.cpp\<close>): the registry of
  publishers and players, kept in Redis as one hash per task, one hash per publishing stream, one
  member set per stream, the set of active streams, the global player counter and the sorted set of
  last-activity times. This theory holds the data, the key builders, the field codec and every
  operation; \<open>Stream_Registry\<close> relates them to an abstract registry. The scores of the sorted set
  are the millisecond counts themselves: the program casts them to \<open>double\<close>, which is exact up to
  \<open>2 ^ 53\<close>, far beyond the latest time it accepts.
\<close>

section \<open>Field codec\<close>

definition MIN_REASONABLE_MS :: int where "MIN_REASONABLE_MS = 1577836800000"
definition MAX_REASONABLE_MS :: int where "MAX_REASONABLE_MS = 2145916800000"

definition reasonable_ms :: "int \<Rightarrow> bool" where
  "reasonable_ms ms \<longleftrightarrow> \<not> (ms < MIN_REASONABLE_MS \<or> ms > MAX_REASONABLE_MS)"

definition serializeTask :: "StreamTask \<Rightarrow> (string \<times> string) list" where
  "serializeTask task =
     [(''stream_name'', stream_name task),
      (''client_id'', client_id task),
      (''active'', ''1''),
      (''type'', toString_type (task_type task)),
      (''state'', toString_state (task_state task)),
      (''protocol'', toString_protocol (protocol task)),
      (''server_ip'', server_ip task),
      (''server_port'', to_string (server_port task)),
      (''start_time_ms'', to_string (to_ms (start_time task))),
      (''last_active_time_ms'', to_string (to_ms (last_active_time task))),
      (''user_id'', user_id task),
      (''auth_token'', auth_token task),
      (''region'', case region task of Some r \<Rightarrow> r | None \<Rightarrow> ''''),
      (''need_transcode'', if need_transcode task then ''1'' else ''0''),
      (''need_record'', if need_record task then ''1'' else ''0''),
      (''transcoding_profile'', transcoding_profile task)]"

definition required_fields :: "string list" where
  "required_fields = [''stream_name'', ''client_id'', ''type'', ''start_time_ms'', ''last_active_time_ms'']"

definition deserializeTask :: "(string \<times> string) list \<Rightarrow> StreamTask option" where
  "deserializeTask fs =
     (let m = map_of fs; at = (\<lambda>k. case m k of Some v \<Rightarrow> v | None \<Rightarrow> '''') in
      if \<not> list_all (\<lambda>k. m k \<noteq> None) required_fields then None
      else if at ''type'' \<noteq> ''publisher'' \<and> at ''type'' \<noteq> ''player'' then None
      else
        (case (stoll (at ''start_time_ms''), stoll (at ''last_active_time_ms'')) of
           (Inr start_ms, Inr last_ms) \<Rightarrow>
             if start_ms < MIN_REASONABLE_MS \<or> start_ms > MAX_REASONABLE_MS \<or>
                last_ms < MIN_REASONABLE_MS \<or> last_ms > MAX_REASONABLE_MS then None
             else Some (default_task
               \<lparr> stream_name := at ''stream_name'',
                 client_id := at ''client_id'',
                 task_type := parseType (at ''type''),
                 task_state := (case m ''state'' of Some v \<Rightarrow> parseState v | None \<Rightarrow> INITIALIZING),
                 protocol := (case m ''protocol'' of Some v \<Rightarrow> parseProtocol v | None \<Rightarrow> Unknown),
                 server_ip := at ''server_ip'',
                 server_port := (case m ''server_port'' of
                    Some v \<Rightarrow> (case stoi v of Inr p \<Rightarrow> p | Inl _ \<Rightarrow> 0) | None \<Rightarrow> 0),
                 start_time := start_ms * 1000000,
                 last_active_time := last_ms * 1000000,
                 user_id := at ''user_id'',
                 auth_token := at ''auth_token'',
                 region := (case m ''region'' of
                    Some v \<Rightarrow> if v = '''' then None else Some v | None \<Rightarrow> None),
                 need_transcode := (m ''need_transcode'' = Some ''1''),
                 need_record := (m ''need_record'' = Some ''1''),
                 transcoding_profile := at ''transcoding_profile'' \<rparr>)
         | _ \<Rightarrow> None))"

section \<open>Key builders\<close>

definition buildTaskKey :: "string \<Rightarrow> string \<Rightarrow> string" where
  "buildTaskKey s c = ''task:'' @ s @ '':'' @ c"

definition buildPublisherKey :: "string \<Rightarrow> string" where
  "buildPublisherKey s = ''pub:'' @ s"

definition buildPlayerSetKey :: "string \<Rightarrow> string" where
  "buildPlayerSetKey s = ''players:'' @ s"

definition buildStreamMetaKey :: "string \<Rightarrow> string" where
  "buildStreamMetaKey s = ''meta:'' @ s"

definition buildActivePublishersKey :: string where
  "buildActivePublishersKey = ''active_pubs''"

definition buildGlobalPlayerCountKey :: string where
  "buildGlobalPlayerCountKey = ''global_players''"

definition buildTaskTimestampZSetKey :: string where
  "buildTaskTimestampZSetKey = ''task_timestamps''"

text \<open>The member index, which the code spells out at each use.\<close>

definition memberKey :: "string \<Rightarrow> string" where
  "memberKey s = ''stream:members:'' @ s"

section \<open>Queries\<close>

definition TASK_TTL_SEC :: int where "TASK_TTL_SEC = 60"

record TaskIdentifier =
  streamName :: string
  clientId :: string
  ident_type :: StreamType

definition getTaskByKey :: "'w CacheManager \<Rightarrow> string \<Rightarrow> ('w, StreamTask option) state" where
  "getTaskByKey cm task_key = do {
     fs \<leftarrow> hashGetAll cm task_key;
     ret (if fs = [] then None else deserializeTask fs)
   }"

definition getTask :: "'w CacheManager \<Rightarrow> string \<Rightarrow> string \<Rightarrow> ('w, StreamTask option) state" where
  "getTask cm s c = getTaskByKey cm (buildTaskKey s c)"

definition getPublisherTask :: "'w CacheManager \<Rightarrow> string \<Rightarrow> ('w, StreamTask option) state" where
  "getPublisherTask cm s = do {
     fs \<leftarrow> hashGetAll cm (buildPublisherKey s);
     ret (if fs = [] \<or> map_of fs ''active'' = None \<or> map_of fs ''active'' \<noteq> Some ''1''
          then None else deserializeTask fs)
   }"

definition getStreamClientIds :: "'w CacheManager \<Rightarrow> string \<Rightarrow> ('w, string list) state" where
  "getStreamClientIds cm s = setMembers cm (memberKey s)"

text \<open>The loops that load the tasks of a list of names and keep those that exist.\<close>

fun collect_tasks :: "(string \<Rightarrow> ('w, StreamTask option) state) \<Rightarrow> string list \<Rightarrow> ('w, StreamTask list) state" where
  "collect_tasks get [] = ret []"
| "collect_tasks get (x # xs) = do {
     t \<leftarrow> get x;
     ts \<leftarrow> collect_tasks get xs;
     ret (case t of Some task \<Rightarrow> task # ts | None \<Rightarrow> ts)
   }"

definition getPlayerTasks :: "'w CacheManager \<Rightarrow> string \<Rightarrow> ('w, StreamTask list) state" where
  "getPlayerTasks cm s = do {
     ids \<leftarrow> setMembers cm (buildPlayerSetKey s);
     collect_tasks (getTask cm s) ids
   }"

definition getAllPublisherTasks :: "'w CacheManager \<Rightarrow> ('w, StreamTask list) state" where
  "getAllPublisherTasks cm = do {
     names \<leftarrow> setMembers cm buildActivePublishersKey;
     collect_tasks (getPublisherTask cm) names
   }"

definition getActivePublisherCount :: "'w CacheManager \<Rightarrow> ('w, nat) state" where
  "getActivePublisherCount cm = setCard cm buildActivePublishersKey"

definition getActivePlayerCount :: "'w CacheManager \<Rightarrow> ('w, nat) state" where
  "getActivePlayerCount cm = do {
     fs \<leftarrow> hashGetAll cm buildGlobalPlayerCountKey;
     ret (case map_of fs ''total'' of
            Some v \<Rightarrow> (case stoull v of Inr n \<Rightarrow> n | Inl _ \<Rightarrow> 0)
          | None \<Rightarrow> 0)
   }"

definition getPlayerCount :: "'w CacheManager \<Rightarrow> string \<Rightarrow> ('w, nat) state" where
  "getPlayerCount cm s = setCard cm (buildPlayerSetKey s)"

definition isHealthy :: "'w CacheManager \<Rightarrow> ('w, bool) call" where
  "isHealthy cm = ping cm"

section \<open>Removal\<close>

fun dereg_cmds :: "TaskIdentifier \<Rightarrow> redis_cmd list" where
  "dereg_cmds task =
     [DEL (buildTaskKey (streamName task) (clientId task)),
      SREM (memberKey (streamName task)) (clientId task)] @
     (case ident_type task of
        PLAYER \<Rightarrow> [HINCRBY buildGlobalPlayerCountKey ''total'' (-1)]
      | PUBLISHER \<Rightarrow> [DEL (buildPublisherKey (streamName task)),
                      SREM buildActivePublishersKey (streamName task)])"

definition deregisterTasksBatch :: "'w CacheManager \<Rightarrow> TaskIdentifier list \<Rightarrow> ('w, nat) call" where
  "deregisterTasksBatch cm tasks =
     (if tasks = [] then ok 0
      else bindE (exec_pipeline cm (concat (map dereg_cmds tasks)))
             (\<lambda>res. ok (case res of Inl _ \<Rightarrow> 0 | Inr _ \<Rightarrow> length tasks)))"

definition deregisterTask :: "'w CacheManager \<Rightarrow> string \<Rightarrow> string \<Rightarrow> ('w, bool) call" where
  "deregisterTask cm s c = do {
     task_opt \<leftarrow> getTask cm s c;
     case task_opt of
       None \<Rightarrow> do {
         _ \<leftarrow> zsetRem cm buildTaskTimestampZSetKey (buildTaskKey s c);
         ok True
       }
     | Some task \<Rightarrow>
         bindE (deregisterTasksBatch cm
                  [\<lparr>streamName = s, clientId = c, ident_type = task_type task\<rparr>])
           (\<lambda>n. ok (0 < n))
   }"

fun member_targets :: "'w CacheManager \<Rightarrow> string \<Rightarrow> string list \<Rightarrow> ('w, TaskIdentifier list) state" where
  "member_targets cm s [] = ret []"
| "member_targets cm s (cid # cids) = do {
     task_opt \<leftarrow> getTask cm s cid;
     rest \<leftarrow> member_targets cm s cids;
     ret (case task_opt of
            Some task \<Rightarrow> \<lparr>streamName = s, clientId = cid, ident_type = task_type task\<rparr> # rest
          | None \<Rightarrow> rest)
   }"

definition deregisterAllMembers :: "'w CacheManager \<Rightarrow> string \<Rightarrow> ('w, unit) call" where
  "deregisterAllMembers cm s = do {
     clientIds \<leftarrow> getStreamClientIds cm s;
     if clientIds = [] then do { _ \<leftarrow> keyDel cm (memberKey s); ok () }
     else do {
       tasks \<leftarrow> member_targets cm s clientIds;
       bindE (deregisterTasksBatch cm tasks)
         (\<lambda>_. do { _ \<leftarrow> keyDel cm (memberKey s); ok () })
     }
   }"

text \<open>Index helpers that no other function of the program calls.\<close>

definition deregisterPublisherIndices :: "'w CacheManager \<Rightarrow> string \<Rightarrow> ('w, unit) state" where
  "deregisterPublisherIndices cm s = do {
     _ \<leftarrow> setRem cm buildActivePublishersKey s;
     _ \<leftarrow> keyDel cm (buildPublisherKey s);
     ret ()
   }"

definition deregisterPlayerIndices :: "'w CacheManager \<Rightarrow> string \<Rightarrow> string \<Rightarrow> ('w, unit) state" where
  "deregisterPlayerIndices cm s c = do {
     removed \<leftarrow> setRem cm (buildPlayerSetKey s) c;
     if removed then do {
       new_val \<leftarrow> hashIncrBy cm buildGlobalPlayerCountKey ''total'' (-1);
       if new_val < 0 then do {
         _ \<leftarrow> hashSet cm buildGlobalPlayerCountKey [(''total'', ''0'')];
         ret ()
       } else ret ()
     } else ret ()
   }"

section \<open>Registration\<close>

definition registerPublisherIndices :: "'w CacheManager \<Rightarrow> StreamTask \<Rightarrow> ('w, bool) call" where
  "registerPublisherIndices cm task = do {
     current_task_opt \<leftarrow> getTaskByKey cm (buildPublisherKey (stream_name task));
     if (case current_task_opt of Some cur \<Rightarrow> client_id cur \<noteq> client_id task | None \<Rightarrow> False)
     then ok False
     else bindE (exec_pipeline cm
            [HSET (buildPublisherKey (stream_name task)) (serializeTask task),
             SADD (memberKey (stream_name task)) [client_id task],
             SADD buildActivePublishersKey [stream_name task]])
          (\<lambda>res. ok (case res of Inl _ \<Rightarrow> False | Inr _ \<Rightarrow> True))
   }"

definition registerPlayerIndices :: "'w CacheManager \<Rightarrow> StreamTask \<Rightarrow> ('w, bool) state" where
  "registerPlayerIndices cm task = do {
     added \<leftarrow> setAdd cm (memberKey (stream_name task)) (client_id task);
     if added then do {
       _ \<leftarrow> hashIncrBy cm buildGlobalPlayerCountKey ''total'' 1;
       ret True
     } else ret False
   }"

text \<open>The second half of \<open>registerTask\<close>: writing the task and its indices, with roll-back.\<close>

definition registerTask_write :: "'w CacheManager \<Rightarrow> int \<Rightarrow> StreamTask \<Rightarrow> ('w, bool) call" where
  "registerTask_write cm now_ms task =
     (let task_key = buildTaskKey (stream_name task) (client_id task);
          rollback = bindE (deregisterTask cm (stream_name task) (client_id task)) (\<lambda>_. ok False)
      in do {
        written \<leftarrow> hashSet cm task_key (serializeTask task);
        if \<not> written then ok False
        else do {
          expires \<leftarrow> keyExpire cm task_key TASK_TTL_SEC;
          if \<not> expires then do { _ \<leftarrow> keyDel cm task_key; ok False }
          else
            bindE (if task_type task = PUBLISHER then registerPublisherIndices cm task
                   else do { b \<leftarrow> registerPlayerIndices cm task; ok b })
              (\<lambda>index_ok.
                 if \<not> index_ok then rollback
                 else if now_ms < MIN_REASONABLE_MS \<or> now_ms > MAX_REASONABLE_MS then rollback
                 else do {
                   z \<leftarrow> zsetAdd cm buildTaskTimestampZSetKey now_ms task_key;
                   if \<not> z then rollback else ok True
                 })
        }
      })"

definition registerTask :: "'w CacheManager \<Rightarrow> int \<Rightarrow> StreamTask \<Rightarrow> ('w, bool) call" where
  "registerTask cm now_ms task =
     (if task_type task = PUBLISHER then do {
        existing_pub \<leftarrow> getPublisherTask cm (stream_name task);
        case existing_pub of
          Some p \<Rightarrow>
            if client_id p \<noteq> client_id task then ok False
            else bindE (deregisterTask cm (stream_name task) (client_id task))
                   (\<lambda>_. registerTask_write cm now_ms task)
        | None \<Rightarrow> registerTask_write cm now_ms task
      }
      else do {
        present \<leftarrow> keyExists cm (buildTaskKey (stream_name task) (client_id task));
        if present
        then bindE (deregisterTask cm (stream_name task) (client_id task))
               (\<lambda>_. registerTask_write cm now_ms task)
        else registerTask_write cm now_ms task
      })"

section \<open>Heartbeat and time-out scan\<close>

text \<open>\<open>results.get<bool>(1)\<close>: an integer reply 0 or 1; anything else throws a redis++ error.\<close>

definition bool_at :: "redis_reply list \<Rightarrow> nat \<Rightarrow> bool option" where
  "bool_at reps i =
     (if i < length reps then
        (case reps ! i of Int_Reply n \<Rightarrow> if n = 1 then Some True else if n = 0 then Some False else None
         | _ \<Rightarrow> None)
      else None)"

definition touchTask :: "'w CacheManager \<Rightarrow> int \<Rightarrow> string \<Rightarrow> string \<Rightarrow> ('w, bool) call" where
  "touchTask cm now_ms s c =
     (let task_key = buildTaskKey s c in
      bindE (exec_pipeline cm
          [HSET task_key [(''last_active_time_ms'', to_string now_ms)],
           EXPIRE task_key TASK_TTL_SEC,
           ZADD buildTaskTimestampZSetKey task_key now_ms])
        (\<lambda>res. case res of
           Inl _ \<Rightarrow> ok False
         | Inr results \<Rightarrow>
             (case bool_at results 1 of
                None \<Rightarrow> ok False
              | Some True \<Rightarrow> ok True
              | Some False \<Rightarrow> do { _ \<leftarrow> keyDel cm task_key; ok False })))"

fun scan_loop ::
  "'w CacheManager \<Rightarrow> int \<Rightarrow> int \<Rightarrow> string list \<Rightarrow> ('w, StreamTask list) call" where
  "scan_loop cm now_ms timeout [] = ok []"
| "scan_loop cm now_ms timeout (task_key # keys) = do {
     removed \<leftarrow> zsetRem cm buildTaskTimestampZSetKey task_key;
     if \<not> removed then scan_loop cm now_ms timeout keys
     else do {
       task_opt \<leftarrow> getTaskByKey cm task_key;
       case task_opt of
         None \<Rightarrow> scan_loop cm now_ms timeout keys
       | Some task \<Rightarrow>
           let last_active_ms = to_ms (last_active_time task) in
           if now_ms - last_active_ms < timeout then do {
             _ \<leftarrow> zsetAdd cm buildTaskTimestampZSetKey last_active_ms task_key;
             scan_loop cm now_ms timeout keys
           }
           else
             bindE (deregisterTask cm (stream_name task) (client_id task))
               (\<lambda>_. bindE (scan_loop cm now_ms timeout keys) (\<lambda>ts. ok (task # ts)))
     }
   }"

definition scanTimeoutTasks :: "'w CacheManager \<Rightarrow> int \<Rightarrow> int \<Rightarrow> ('w, StreamTask list) call" where
  "scanTimeoutTasks cm now_ms timeout = do {
     candidate_keys \<leftarrow> zsetRangeByScore cm buildTaskTimestampZSetKey 0 (now_ms - timeout);
     scan_loop cm now_ms timeout candidate_keys
   }"

section \<open>Batches of the interface\<close>

text \<open>The default methods of \<open>IStreamStateManager\<close> that the Redis manager inherits.\<close>

fun registerTasksBatch :: "'w CacheManager \<Rightarrow> int \<Rightarrow> StreamTask list \<Rightarrow> ('w, nat) call" where
  "registerTasksBatch cm now_ms [] = ok 0"
| "registerTasksBatch cm now_ms (t # ts) =
     bindE (registerTask cm now_ms t)
       (\<lambda>b. bindE (registerTasksBatch cm now_ms ts) (\<lambda>n. ok (if b then Suc n else n)))"

fun touchTasksBatch :: "'w CacheManager \<Rightarrow> int \<Rightarrow> TaskIdentifier list \<Rightarrow> ('w, nat) call" where
  "touchTasksBatch cm now_ms [] = ok 0"
| "touchTasksBatch cm now_ms (t # ts) =
     bindE (touchTask cm now_ms (streamName t) (clientId t))
       (\<lambda>b. bindE (touchTasksBatch cm now_ms ts) (\<lambda>n. ok (if b then Suc n else n)))"

end
