(* ===== verification/Stream_Codec.thy ===== *)
theory Stream_Codec
  imports Stream_State
begin

text \<open>
  The codec and the key space of the stream registry: what a task becomes when it is written to its
  Redis hash and read back, and which Redis keys are equal. The registry proofs use both.
\<close>

section \<open>Codec\<close>

text \<open>
  What the hash keeps of a task: times at one-millisecond resolution, no task id, no counters, and
  an empty region reads back as none.
\<close>

definition stored :: "StreamTask \<Rightarrow> StreamTask" where
  "stored t = t\<lparr> task_id := 0,
     start_time := to_ms (start_time t) * 1000000,
     last_active_time := to_ms (last_active_time t) * 1000000,
     region := (if region t = Some '''' then None else region t),
     bandwidth_kbps := None, player_count := None \<rparr>"

text \<open>The tasks the codec accepts back: a 32-bit port and times in the accepted range.\<close>

definition storable :: "StreamTask \<Rightarrow> bool" where
  "storable t \<longleftrightarrow> int32_range (server_port t)
     \<and> reasonable_ms (to_ms (start_time t)) \<and> reasonable_ms (to_ms (last_active_time t))"

lemma reasonable_int64: "reasonable_ms ms \<Longrightarrow> int64_range ms"
  by (auto simp: reasonable_ms_def MIN_REASONABLE_MS_def MAX_REASONABLE_MS_def int64_range_def)

lemma deserializeTask_cong: "map_of ps = map_of qs \<Longrightarrow> deserializeTask ps = deserializeTask qs"
  by (simp add: deserializeTask_def)

lemma serializeTask_lookup [simp]:
  "map_of (serializeTask t) ''stream_name'' = Some (stream_name t)"
  "map_of (serializeTask t) ''client_id'' = Some (client_id t)"
  "map_of (serializeTask t) ''active'' = Some ''1''"
  "map_of (serializeTask t) ''type'' = Some (toString_type (task_type t))"
  "map_of (serializeTask t) ''state'' = Some (toString_state (task_state t))"
  "map_of (serializeTask t) ''protocol'' = Some (toString_protocol (protocol t))"
  "map_of (serializeTask t) ''server_ip'' = Some (server_ip t)"
  "map_of (serializeTask t) ''server_port'' = Some (to_string (server_port t))"
  "map_of (serializeTask t) ''start_time_ms'' = Some (to_string (to_ms (start_time t)))"
  "map_of (serializeTask t) ''last_active_time_ms'' = Some (to_string (to_ms (last_active_time t)))"
  "map_of (serializeTask t) ''user_id'' = Some (user_id t)"
  "map_of (serializeTask t) ''auth_token'' = Some (auth_token t)"
  "map_of (serializeTask t) ''region'' = Some (case region t of Some r \<Rightarrow> r | None \<Rightarrow> '''')"
  "map_of (serializeTask t) ''need_transcode'' = Some (if need_transcode t then ''1'' else ''0'')"
  "map_of (serializeTask t) ''need_record'' = Some (if need_record t then ''1'' else ''0'')"
  "map_of (serializeTask t) ''transcoding_profile'' = Some (transcoding_profile t)"
  by (simp_all add: serializeTask_def)

lemma deserializeTask_serializeTask:
  assumes "storable t"
  shows "deserializeTask (serializeTask t) = Some (stored t)"
proof -
  have t: "stoll (to_string (to_ms (start_time t))) = Inr (to_ms (start_time t))"
    "stoll (to_string (to_ms (last_active_time t))) = Inr (to_ms (last_active_time t))"
    using assms by (auto simp: storable_def intro!: stoll_to_string reasonable_int64)
  have p: "stoi (to_string (server_port t)) = Inr (server_port t)"
    using assms by (simp add: storable_def stoi_to_string)
  have u: "toString_type (task_type t) = ''publisher'' \<or> toString_type (task_type t) = ''player''"
    by (cases "task_type t") simp_all
  have "deserializeTask (serializeTask t) = Some (default_task
     \<lparr> stream_name := stream_name t, client_id := client_id t, task_type := task_type t,
       task_state := task_state t, protocol := protocol t, server_ip := server_ip t,
       server_port := server_port t, start_time := to_ms (start_time t) * 1000000,
       last_active_time := to_ms (last_active_time t) * 1000000, user_id := user_id t,
       auth_token := auth_token t,
       region := (if region t = Some '''' then None else region t),
       need_transcode := need_transcode t, need_record := need_record t,
       transcoding_profile := transcoding_profile t \<rparr>)"
    using assms u
    by (simp add: deserializeTask_def required_fields_def t p Let_def storable_def
        reasonable_ms_def parseType_toString parseState_toString parseProtocol_toString
        del: toString_type.simps split: option.splits)
  then show ?thesis
    by (cases t) (simp add: default_task_def stored_def)
qed

lemma serializeTask_nonempty [simp]: "serializeTask t \<noteq> []"
  by (simp add: serializeTask_def)

lemma serializeTask_stored [simp]: "serializeTask (stored t) = serializeTask t"
  by (auto simp: serializeTask_def stored_def split: option.splits)

lemma stored_fields [simp]:
  "stream_name (stored t) = stream_name t" "client_id (stored t) = client_id t"
  "task_type (stored t) = task_type t" "storable (stored t) = storable t"
  "stored (stored t) = stored t" "server_ip (stored t) = server_ip t"
  "server_port (stored t) = server_port t"
  by (simp_all add: stored_def storable_def)

lemma map_of_rev: "distinct (map fst ps) \<Longrightarrow> map_of (rev ps) = map_of ps"
proof (induction ps)
  case (Cons p ps)
  then have "[fst p \<mapsto> snd p] ++ map_of ps = map_of ps ++ [fst p \<mapsto> snd p]"
    by (intro map_add_comm) (simp add: dom_map_of_conv_image_fst)
  with Cons show ?case by (cases p) simp
qed simp

lemma map_of_rev_serializeTask [simp]: "map_of (rev (serializeTask t)) = map_of (serializeTask t)"
  by (rule map_of_rev) (simp add: serializeTask_def)

section \<open>Keys\<close>

text \<open>A client id without the separator of the task keys.\<close>

definition colon_free :: "string \<Rightarrow> bool" where
  "colon_free c \<longleftrightarrow> CHR '':'' \<notin> set c"

lemma takeWhile_sep: "x \<notin> set c \<Longrightarrow> takeWhile ((\<noteq>) x) (c @ x # s) = c"
  by (induction c) auto

lemma append_sep_inject:
  assumes "x \<notin> set c" "x \<notin> set d"
  shows "s @ x # c = t @ x # d \<longleftrightarrow> s = t \<and> c = d"
proof
  assume eq: "s @ x # c = t @ x # d"
  from eq have "rev (s @ x # c) = rev (t @ x # d)"
    by simp
  then have "takeWhile ((\<noteq>) x) (rev c @ x # rev s) = takeWhile ((\<noteq>) x) (rev d @ x # rev t)"
    by simp
  then have "rev c = rev d"
    using assms by (simp add: takeWhile_sep)
  with eq show "s = t \<and> c = d" by simp
qed simp

lemma buildTaskKey_inject [simp]:
  "colon_free c \<Longrightarrow> colon_free d \<Longrightarrow> buildTaskKey s c = buildTaskKey t d \<longleftrightarrow> s = t \<and> c = d"
  by (simp add: buildTaskKey_def colon_free_def append_sep_inject)

lemmas key_defs = buildTaskKey_def buildPublisherKey_def buildPlayerSetKey_def memberKey_def
  buildActivePublishersKey_def buildGlobalPlayerCountKey_def buildTaskTimestampZSetKey_def

lemma keys_distinct [key_simps, simp]:
  "buildTaskKey s c \<noteq> buildPublisherKey t" "buildPublisherKey t \<noteq> buildTaskKey s c"
  "buildTaskKey s c \<noteq> memberKey t" "memberKey t \<noteq> buildTaskKey s c"
  "buildTaskKey s c \<noteq> buildActivePublishersKey" "buildActivePublishersKey \<noteq> buildTaskKey s c"
  "buildTaskKey s c \<noteq> buildGlobalPlayerCountKey" "buildGlobalPlayerCountKey \<noteq> buildTaskKey s c"
  "buildTaskKey s c \<noteq> buildTaskTimestampZSetKey" "buildTaskTimestampZSetKey \<noteq> buildTaskKey s c"
  "buildPublisherKey s \<noteq> memberKey t" "memberKey t \<noteq> buildPublisherKey s"
  "buildPublisherKey s \<noteq> buildActivePublishersKey" "buildActivePublishersKey \<noteq> buildPublisherKey s"
  "buildPublisherKey s \<noteq> buildGlobalPlayerCountKey" "buildGlobalPlayerCountKey \<noteq> buildPublisherKey s"
  "buildPublisherKey s \<noteq> buildTaskTimestampZSetKey" "buildTaskTimestampZSetKey \<noteq> buildPublisherKey s"
  "memberKey s \<noteq> buildActivePublishersKey" "buildActivePublishersKey \<noteq> memberKey s"
  "memberKey s \<noteq> buildGlobalPlayerCountKey" "buildGlobalPlayerCountKey \<noteq> memberKey s"
  "memberKey s \<noteq> buildTaskTimestampZSetKey" "buildTaskTimestampZSetKey \<noteq> memberKey s"
  "buildActivePublishersKey \<noteq> buildGlobalPlayerCountKey" "buildGlobalPlayerCountKey \<noteq> buildActivePublishersKey"
  "buildActivePublishersKey \<noteq> buildTaskTimestampZSetKey" "buildTaskTimestampZSetKey \<noteq> buildActivePublishersKey"
  "buildGlobalPlayerCountKey \<noteq> buildTaskTimestampZSetKey" "buildTaskTimestampZSetKey \<noteq> buildGlobalPlayerCountKey"
  by (simp_all add: key_defs)

lemma keys_inject [key_simps, simp]:
  "buildPublisherKey s = buildPublisherKey t \<longleftrightarrow> s = t" "memberKey s = memberKey t \<longleftrightarrow> s = t"
  "buildPlayerSetKey s = buildPlayerSetKey t \<longleftrightarrow> s = t"
  by (simp_all add: key_defs)

lemma player_set_key_distinct [key_simps, simp]:
  "buildPlayerSetKey s \<noteq> buildTaskKey t c" "buildPlayerSetKey s \<noteq> buildPublisherKey t"
  "buildPlayerSetKey s \<noteq> memberKey t" "buildPlayerSetKey s \<noteq> buildActivePublishersKey"
  "buildPlayerSetKey s \<noteq> buildGlobalPlayerCountKey" "buildPlayerSetKey s \<noteq> buildTaskTimestampZSetKey"
  by (simp_all add: key_defs)

end
