(* ===== verification/Stream_Registry.thy ===== *)
theory Stream_Registry
  imports Stream_Codec
begin

text \<open>
  What the registry promises. A registry is a finite map from (stream, client) to the task as the
  codec keeps it. \<open>represents K \<rho>\<close> says that the keyspace \<open>K\<close> holds exactly the registry
  \<open>\<rho>\<close>: the task hashes, the publisher hashes, the member sets, the set of active streams, the
  global player counter and the sorted set of activity times. Every operation of
  \<open>RedisStreamStateManager\<close> refines an operation on the map.
\<close>

type_synonym registry = "string \<times> string \<rightharpoonup> StreamTask"

section \<open>The abstract registry\<close>

definition publishes :: "registry \<Rightarrow> string \<Rightarrow> StreamTask \<Rightarrow> bool" where
  "publishes \<rho> s t \<longleftrightarrow> \<rho> (s, client_id t) = Some t \<and> task_type t = PUBLISHER"

definition players :: "registry \<Rightarrow> (string \<times> string) set" where
  "players \<rho> = {k. \<exists>t. \<rho> k = Some t \<and> task_type t = PLAYER}"

definition taken :: "registry \<Rightarrow> StreamTask \<Rightarrow> bool" where
  "taken \<rho> t \<longleftrightarrow> task_type t = PUBLISHER
     \<and> (\<exists>u. publishes \<rho> (stream_name t) u \<and> client_id u \<noteq> client_id t)"

definition spec_register :: "StreamTask \<Rightarrow> registry \<Rightarrow> registry" where
  "spec_register t \<rho> =
     (if taken \<rho> t then \<rho> else \<rho>((stream_name t, client_id t) \<mapsto> stored t))"

definition spec_deregister :: "string \<Rightarrow> string \<Rightarrow> registry \<Rightarrow> registry" where
  "spec_deregister s c \<rho> = \<rho>((s, c) := None)"

definition spec_clear :: "string \<Rightarrow> registry \<Rightarrow> registry" where
  "spec_clear s \<rho> = (\<lambda>k. if fst k = s then None else \<rho> k)"

definition valid_task :: "string \<Rightarrow> string \<Rightarrow> StreamTask \<Rightarrow> bool" where
  "valid_task s c t \<longleftrightarrow>
     stream_name t = s \<and> client_id t = c \<and> colon_free c \<and> storable t \<and> stored t = t"

definition valid_registry :: "registry \<Rightarrow> bool" where
  "valid_registry \<rho> \<longleftrightarrow> finite (dom \<rho>)
     \<and> (\<forall>s c t. \<rho> (s, c) = Some t \<longrightarrow> valid_task s c t)
     \<and> (\<forall>s t u. publishes \<rho> s t \<longrightarrow> publishes \<rho> s u \<longrightarrow> t = u)"

section \<open>Representation\<close>

definition rep_tasks :: "keyspace \<Rightarrow> registry \<Rightarrow> bool" where
  "rep_tasks K \<rho> \<longleftrightarrow> (\<forall>s c. colon_free c \<longrightarrow>
     (case \<rho> (s, c) of
        None \<Rightarrow> K (buildTaskKey s c) = None
      | Some t \<Rightarrow> hash_at K (buildTaskKey s c) = Some (map_of (serializeTask t))))"

definition rep_publishers :: "keyspace \<Rightarrow> registry \<Rightarrow> bool" where
  "rep_publishers K \<rho> \<longleftrightarrow> (\<forall>s.
     (\<forall>t. publishes \<rho> s t \<longrightarrow> hash_at K (buildPublisherKey s) = Some (map_of (serializeTask t)))
     \<and> ((\<nexists>t. publishes \<rho> s t) \<longrightarrow> K (buildPublisherKey s) = None))"

definition rep_members :: "keyspace \<Rightarrow> registry \<Rightarrow> bool" where
  "rep_members K \<rho> \<longleftrightarrow> (\<forall>s. set_at K (memberKey s) = Some {c. (s, c) \<in> dom \<rho>})"

definition rep_active :: "keyspace \<Rightarrow> registry \<Rightarrow> bool" where
  "rep_active K \<rho> \<longleftrightarrow> set_at K buildActivePublishersKey = Some {s. \<exists>t. publishes \<rho> s t}"

definition rep_total :: "keyspace \<Rightarrow> registry \<Rightarrow> bool" where
  "rep_total K \<rho> \<longleftrightarrow> (\<exists>m. hash_at K buildGlobalPlayerCountKey = Some m
     \<and> redis_int (m ''total'') = Some (int (card (players \<rho>))))"

definition task_keys :: "string set" where
  "task_keys = {buildTaskKey s c | s c. colon_free c}"

definition rep_times :: "keyspace \<Rightarrow> registry \<Rightarrow> bool" where
  "rep_times K \<rho> \<longleftrightarrow> (\<exists>z. zset_at K buildTaskTimestampZSetKey = Some z
     \<and> dom z \<subseteq> task_keys \<and> (\<forall>s c. (s, c) \<in> dom \<rho> \<longrightarrow> buildTaskKey s c \<in> dom z))"

definition indexed :: "keyspace \<Rightarrow> registry \<Rightarrow> bool" where
  "indexed K \<rho> \<longleftrightarrow> valid_registry \<rho> \<and> rep_tasks K \<rho> \<and> rep_publishers K \<rho> \<and> rep_members K \<rho>
     \<and> rep_active K \<rho> \<and> rep_total K \<rho>"

definition represents :: "keyspace \<Rightarrow> registry \<Rightarrow> bool" where
  "represents K \<rho> \<longleftrightarrow> indexed K \<rho> \<and> rep_times K \<rho>"

lemmas rep_defs = rep_tasks_def rep_publishers_def rep_members_def rep_active_def rep_total_def
  rep_times_def

lemma represents_empty: "represents Map.empty Map.empty"
  by (simp add: represents_def indexed_def valid_registry_def rep_defs publishes_def players_def hash_at_def
      set_at_def zset_at_def redis_int_def)

section \<open>Reading an updated keyspace\<close>

lemma at_cong:
  assumes "K k = L k"
  shows "hash_at K k = hash_at L k" "set_at K k = set_at L k" "zset_at K k = zset_at L k"
  using assms by (simp_all add: hash_at_def set_at_def zset_at_def)

lemma put_other [simp]:
  assumes "k' \<noteq> k"
  shows "put_hash k m K k' = K k'" "put_set k S K k' = K k'" "put_zset k z K k' = K k'"
  using assms by (simp_all add: put_hash_def put_set_def put_zset_def)

lemma at_update_other [simp]:
  assumes "k' \<noteq> k"
  shows "hash_at (K(k := v)) k' = hash_at K k'" "set_at (K(k := v)) k' = set_at K k'"
    "zset_at (K(k := v)) k' = zset_at K k'"
  using assms by (simp_all add: hash_at_def set_at_def zset_at_def)

lemma at_put_other [simp]:
  assumes "k' \<noteq> k"
  shows "hash_at (put_hash k m K) k' = hash_at K k'" "hash_at (put_set k S K) k' = hash_at K k'"
    "hash_at (put_zset k z K) k' = hash_at K k'"
    "set_at (put_hash k m K) k' = set_at K k'" "set_at (put_set k S K) k' = set_at K k'"
    "set_at (put_zset k z K) k' = set_at K k'"
    "zset_at (put_hash k m K) k' = zset_at K k'" "zset_at (put_set k S K) k' = zset_at K k'"
    "zset_at (put_zset k z K) k' = zset_at K k'"
  using assms by (auto intro!: at_cong)

lemma at_put_same [simp]:
  "hash_at (put_hash k m K) k = Some m" "set_at (put_set k S K) k = Some S"
  "zset_at (put_zset k z K) k = Some z" "set_at (K(k := None)) k = Some {}"
  "hash_at (K(k \<mapsto> (RHash m, t))) k = Some m" "hash_at (K(k := None)) k = Some Map.empty"
  by (simp_all add: hash_at_def set_at_def zset_at_def put_hash_def put_set_def put_zset_def)

lemma at_absent: "K k = None \<Longrightarrow> hash_at K k = Some Map.empty"
  by (simp add: hash_at_def)

lemma redis_int_to_string [simp]: "int64_range n \<Longrightarrow> redis_int (Some (to_string n)) = Some n"
  by (simp add: redis_int_def)

section \<open>The registry map\<close>

lemma valid_registryD:
  assumes "valid_registry \<rho>" "\<rho> (s, c) = Some t"
  shows "stream_name t = s" "client_id t = c" "colon_free c" "storable t" "stored t = t"
  using assms by (auto simp: valid_registry_def valid_task_def)

lemma publishes_unique: "valid_registry \<rho> \<Longrightarrow> publishes \<rho> s t \<Longrightarrow> publishes \<rho> s u \<Longrightarrow> t = u"
  by (simp add: valid_registry_def)

lemma finite_players: "valid_registry \<rho> \<Longrightarrow> finite (players \<rho>)"
  by (rule finite_subset [of _ "dom \<rho>"]) (auto simp: players_def valid_registry_def)

lemma publishes_insert:
  assumes "\<rho> (s, c) = None" "client_id t = c"
  shows "publishes (\<rho>((s, c) \<mapsto> t)) s' u \<longleftrightarrow>
    publishes \<rho> s' u \<or> (s' = s \<and> u = t \<and> task_type t = PUBLISHER)"
  using assms by (auto simp: publishes_def)

lemma publishes_remove:
  "publishes (\<rho>((s, c) := None)) s' u \<longleftrightarrow> publishes \<rho> s' u \<and> \<not> (s' = s \<and> client_id u = c)"
  by (auto simp: publishes_def)

lemma players_insert:
  assumes "\<rho> k = None"
  shows "players (\<rho>(k \<mapsto> t)) = (if task_type t = PLAYER then insert k (players \<rho>) else players \<rho>)"
  using assms by (auto simp: players_def)

lemma players_remove: "players (\<rho>(k := None)) = players \<rho> - {k}"
  by (auto simp: players_def)

lemma valid_registry_insert:
  assumes "valid_registry \<rho>" "\<rho> (s, c) = None" "valid_task s c t"
    and "task_type t = PUBLISHER \<Longrightarrow> \<nexists>u. publishes \<rho> s u"
  shows "valid_registry (\<rho>((s, c) \<mapsto> t))"
proof -
  have "client_id t = c" using assms(3) by (simp add: valid_task_def)
  then show ?thesis
    using assms by (auto simp: valid_registry_def publishes_insert)
qed

lemma valid_registry_remove: "valid_registry \<rho> \<Longrightarrow> valid_registry (\<rho>((s, c) := None))"
  by (auto simp: valid_registry_def publishes_remove split: if_splits)

lemma taken_iff:
  assumes "valid_registry \<rho>" "publishes \<rho> (stream_name t) u"
  shows "taken \<rho> t \<longleftrightarrow> task_type t = PUBLISHER \<and> client_id u \<noteq> client_id t"
  using assms publishes_unique by (auto simp: taken_def)

section \<open>Adding and removing one entry\<close>

text \<open>The keys an operation on the entry (s, c) may write.\<close>

definition entry_keys :: "string \<Rightarrow> string \<Rightarrow> string set" where
  "entry_keys s c = {buildTaskKey s c, buildPublisherKey s, memberKey s, buildActivePublishersKey,
     buildGlobalPlayerCountKey, buildTaskTimestampZSetKey}"

lemma rep_tasks_update:
  assumes "rep_tasks K \<rho>" "colon_free c"
    and frame: "\<And>k. k \<notin> entry_keys s c \<Longrightarrow> L k = K k"
    and at: "case v of None \<Rightarrow> L (buildTaskKey s c) = None
             | Some t \<Rightarrow> hash_at L (buildTaskKey s c) = Some (map_of (serializeTask t))"
  shows "rep_tasks L (\<rho>((s, c) := v))"
proof -
  have eq: "L (buildTaskKey s' c') = K (buildTaskKey s' c')"
    if "colon_free c'" "(s', c') \<noteq> (s, c)" for s' c'
    using that assms(2) by (intro frame) (auto simp: entry_keys_def)
  show ?thesis
    unfolding rep_tasks_def
  proof (intro allI impI)
    fix s' c' assume c': "colon_free c'"
    show "case (\<rho>((s, c) := v)) (s', c') of
        None \<Rightarrow> L (buildTaskKey s' c') = None
      | Some t \<Rightarrow> hash_at L (buildTaskKey s' c') = Some (map_of (serializeTask t))"
    proof (cases "(s', c') = (s, c)")
      case True then show ?thesis using at by (auto split: option.splits)
    next
      case False
      have "case \<rho> (s', c') of None \<Rightarrow> K (buildTaskKey s' c') = None
          | Some t \<Rightarrow> hash_at K (buildTaskKey s' c') = Some (map_of (serializeTask t))"
        using assms(1) c' unfolding rep_tasks_def by blast
      then show ?thesis
        using False eq [OF c' False] at_cong(1) [of L "buildTaskKey s' c'" K]
        by (auto split: option.splits)
    qed
  qed
qed

lemma rep_publishers_update:
  assumes "rep_publishers K \<rho>"
    and frame: "\<And>k. k \<notin> entry_keys s c \<Longrightarrow> L k = K k"
    and other: "\<And>s' t. s' \<noteq> s \<Longrightarrow> publishes \<sigma> s' t \<longleftrightarrow> publishes \<rho> s' t"
    and at: "\<And>t. publishes \<sigma> s t \<Longrightarrow> hash_at L (buildPublisherKey s) = Some (map_of (serializeTask t))"
      "(\<nexists>t. publishes \<sigma> s t) \<Longrightarrow> L (buildPublisherKey s) = None"
  shows "rep_publishers L \<sigma>"
proof -
  have eq: "L (buildPublisherKey s') = K (buildPublisherKey s')" if "s' \<noteq> s" for s'
    using that by (intro frame) (auto simp: entry_keys_def)
  show ?thesis
    unfolding rep_publishers_def
  proof (intro allI conjI impI)
    fix s' t assume "publishes \<sigma> s' t"
    then show "hash_at L (buildPublisherKey s') = Some (map_of (serializeTask t))"
      using assms(1) at(1) other eq unfolding rep_publishers_def
      by (cases "s' = s") (auto simp: at_cong(1) [of L _ K])
  next
    fix s' assume "\<nexists>t. publishes \<sigma> s' t"
    then show "L (buildPublisherKey s') = None"
      using assms(1) at(2) other eq unfolding rep_publishers_def by (cases "s' = s") auto
  qed
qed

lemma rep_members_update:
  assumes "rep_members K \<rho>"
    and frame: "\<And>k. k \<notin> entry_keys s c \<Longrightarrow> L k = K k"
    and at: "set_at L (memberKey s) = Some {d. (s, d) \<in> dom (\<rho>((s, c) := v))}"
  shows "rep_members L (\<rho>((s, c) := v))"
  unfolding rep_members_def
proof
  fix s'
  show "set_at L (memberKey s') = Some {d. (s', d) \<in> dom (\<rho>((s, c) := v))}"
  proof (cases "s' = s")
    case True then show ?thesis using at by simp
  next
    case False
    then have "L (memberKey s') = K (memberKey s')"
      by (intro frame) (auto simp: entry_keys_def)
    moreover have "{d. (s', d) \<in> dom (\<rho>((s, c) := v))} = {d. (s', d) \<in> dom \<rho>}"
      using False by auto
    ultimately show ?thesis
      using assms(1) by (simp add: rep_members_def at_cong(2) [of L _ K])
  qed
qed

lemma indexed_insertI:
  assumes rep: "indexed K \<rho>" and new: "\<rho> (s, c) = None" "valid_task s c t"
    and free: "task_type t = PUBLISHER \<Longrightarrow> \<nexists>u. publishes \<rho> s u"
    and frame: "\<And>k. k \<notin> entry_keys s c \<Longrightarrow> L k = K k"
    and task: "hash_at L (buildTaskKey s c) = Some (map_of (serializeTask t))"
    and pub: "if task_type t = PUBLISHER
              then hash_at L (buildPublisherKey s) = Some (map_of (serializeTask t))
              else L (buildPublisherKey s) = K (buildPublisherKey s)"
    and mem: "set_at L (memberKey s) = Some (insert c {d. (s, d) \<in> dom \<rho>})"
    and active: "set_at L buildActivePublishersKey =
       Some ({s. \<exists>t. publishes \<rho> s t} \<union> (if task_type t = PUBLISHER then {s} else {}))"
    and total: "hash_at L buildGlobalPlayerCountKey = Some m"
      "redis_int (m ''total'') = Some (int (card (players \<rho>)) + (if task_type t = PLAYER then 1 else 0))"
  shows "indexed L (\<rho>((s, c) \<mapsto> t))"
proof -
  have c: "client_id t = c" "colon_free c" using new by (auto simp: valid_task_def)
  have valid: "valid_registry \<rho>" using rep by (simp add: indexed_def)
  have absent: "(s, c) \<notin> players \<rho>" using new(1) by (simp add: players_def)
  note ins = publishes_insert [of \<rho> s c t, OF new(1) c(1)]
  have "rep_publishers L (\<rho>((s, c) \<mapsto> t))"
  proof (rule rep_publishers_update [of K \<rho> s c])
    show "rep_publishers K \<rho>" using rep by (simp add: indexed_def)
    show "hash_at L (buildPublisherKey s) = Some (map_of (serializeTask u))"
      if "publishes (\<rho>((s, c) \<mapsto> t)) s u" for u
      using that pub free rep
      by (auto simp: ins indexed_def rep_publishers_def at_cong(1) [of L _ K] split: if_splits)
    show "L (buildPublisherKey s) = None" if "\<nexists>u. publishes (\<rho>((s, c) \<mapsto> t)) s u"
      using that pub rep by (auto simp: ins indexed_def rep_publishers_def split: if_splits)
  qed (use frame in \<open>auto simp: ins\<close>)
  moreover have "rep_active L (\<rho>((s, c) \<mapsto> t))"
    using active by (auto simp: rep_active_def ins)
  moreover have "rep_total L (\<rho>((s, c) \<mapsto> t))"
    using total new finite_players [OF valid]
    by (simp add: rep_total_def players_insert [of \<rho> "(s, c)"] card_insert_if absent)
  moreover have "rep_members L (\<rho>((s, c) \<mapsto> t))"
    using rep mem frame by (intro rep_members_update [of K]) (auto simp: indexed_def)
  ultimately show ?thesis
    using rep new free frame task c
    by (auto simp: indexed_def intro!: valid_registry_insert rep_tasks_update [of K])
qed

lemma indexed_removeI:
  assumes rep: "indexed K \<rho>" and old: "\<rho> (s, c) = Some t"
    and frame: "\<And>k. k \<notin> entry_keys s c \<Longrightarrow> L k = K k"
    and task: "L (buildTaskKey s c) = None"
    and pub: "L (buildPublisherKey s) =
       (if task_type t = PUBLISHER then None else K (buildPublisherKey s))"
    and mem: "set_at L (memberKey s) = Some ({d. (s, d) \<in> dom \<rho>} - {c})"
    and active: "set_at L buildActivePublishersKey =
       Some ({s. \<exists>t. publishes \<rho> s t} - (if task_type t = PUBLISHER then {s} else {}))"
    and total: "hash_at L buildGlobalPlayerCountKey = Some m"
      "redis_int (m ''total'') = Some (int (card (players \<rho>)) - (if task_type t = PLAYER then 1 else 0))"
  shows "indexed L (\<rho>((s, c) := None))"
proof -
  have valid: "valid_registry \<rho>" using rep by (simp add: indexed_def)
  note t = valid_registryD [OF valid old]
  have self: "publishes \<rho> s t \<longleftrightarrow> task_type t = PUBLISHER"
    using old t by (simp add: publishes_def)
  have own: "publishes \<rho> s u \<Longrightarrow> task_type t = PUBLISHER \<Longrightarrow> u = t" for u
    using publishes_unique [OF valid, of s u t] self by blast
  have own': "client_id u = c \<Longrightarrow> publishes \<rho> s u \<Longrightarrow> u = t" for u
    using old by (simp add: publishes_def)
  have still: "publishes (\<rho>((s, c) := None)) s u \<longleftrightarrow> publishes \<rho> s u \<and> task_type t = PLAYER" for u
    using own [of u] own' [of u] t(2) self by (cases "task_type t") (auto simp: publishes_remove)
  have "rep_publishers L (\<rho>((s, c) := None))"
  proof (rule rep_publishers_update [of K \<rho> s c])
    show "rep_publishers K \<rho>" using rep by (simp add: indexed_def)
    show "hash_at L (buildPublisherKey s) = Some (map_of (serializeTask u))"
      if "publishes (\<rho>((s, c) := None)) s u" for u
      using that pub rep
      by (auto simp: still indexed_def rep_publishers_def at_cong(1) [of L _ K])
    show "L (buildPublisherKey s) = None" if "\<nexists>u. publishes (\<rho>((s, c) := None)) s u"
      using that pub rep
      by (cases "task_type t") (auto simp: still indexed_def rep_publishers_def)
  qed (use frame in \<open>auto simp: publishes_remove\<close>)
  moreover have "rep_active L (\<rho>((s, c) := None))"
  proof -
    have "{s'. \<exists>u. publishes (\<rho>((s, c) := None)) s' u} =
        {s. \<exists>t. publishes \<rho> s t} - (if task_type t = PUBLISHER then {s} else {})"
      using still by (cases "task_type t") (auto simp: publishes_remove)
    then show ?thesis using active by (simp add: rep_active_def)
  qed
  moreover have "rep_total L (\<rho>((s, c) := None))"
  proof -
    have "(s, c) \<in> players \<rho> \<longleftrightarrow> task_type t = PLAYER"
      using old by (simp add: players_def)
    then have "int (card (players \<rho> - {(s, c)})) =
        int (card (players \<rho>)) - (if task_type t = PLAYER then 1 else 0)"
      using card_Suc_Diff1 [OF finite_players [OF valid], of "(s, c)"] by (auto simp del: card_Diff_insert)
    then show ?thesis using total by (simp add: rep_total_def players_remove)
  qed
  moreover have "rep_members L (\<rho>((s, c) := None))"
  proof (rule rep_members_update [of K])
    have "{d. (s, d) \<in> dom \<rho>} - {c} = {d. (s, d) \<in> dom (\<rho>((s, c) := None))}"
      by auto
    then show "set_at L (memberKey s) = Some {d. (s, d) \<in> dom (\<rho>((s, c) := None))}"
      using mem by simp
  qed (use rep frame in \<open>auto simp: indexed_def\<close>)
  ultimately show ?thesis
    using rep frame task t
    by (auto simp: indexed_def intro!: valid_registry_remove rep_tasks_update [of K])
qed

lemma redis_int_range: "redis_int v = Some n \<Longrightarrow> int64_range n"
  by (auto simp: redis_int_def sto_signed_def int64_range_def Let_def split: option.splits sum.splits if_splits)

lemma indexed_total:
  assumes "indexed K \<rho>"
  obtains m where "hash_at K buildGlobalPlayerCountKey = Some m"
    "redis_int (m ''total'') = Some (int (card (players \<rho>)))" "int64_range (int (card (players \<rho>)))"
  using assms redis_int_range unfolding indexed_def rep_total_def by blast

lemma indexed_sets:
  assumes "indexed K \<rho>"
  shows "set_at K (memberKey s) = Some {c. (s, c) \<in> dom \<rho>}"
    "set_at K buildActivePublishersKey = Some {s. \<exists>t. publishes \<rho> s t}"
  using assms by (simp_all add: indexed_def rep_defs)

lemma indexed_valid: "indexed K \<rho> \<Longrightarrow> valid_registry \<rho>"
  by (simp add: indexed_def)

lemma indexed_task:
  assumes "indexed K \<rho>" "\<rho> (s, c) = Some t"
  shows "hash_at K (buildTaskKey s c) = Some (map_of (serializeTask t))"
  using assms valid_registryD(3) [OF indexed_valid [OF assms(1)] assms(2)]
  unfolding indexed_def rep_tasks_def by (auto split: option.splits)

lemma indexed_no_task:
  "indexed K \<rho> \<Longrightarrow> colon_free c \<Longrightarrow> \<rho> (s, c) = None \<Longrightarrow> K (buildTaskKey s c) = None"
  unfolding indexed_def rep_tasks_def by (elim conjE allE [of _ s] allE [of _ c]) simp

lemma indexed_task_live:
  assumes "indexed K \<rho>" "colon_free c"
  shows "buildTaskKey s c \<in> dom K \<longleftrightarrow> (s, c) \<in> dom \<rho>"
proof (cases "\<rho> (s, c)")
  case None then show ?thesis using indexed_no_task [OF assms] by auto
next
  case (Some t)
  then have "hash_at K (buildTaskKey s c) \<noteq> Some Map.empty"
    using indexed_task [OF assms(1) Some] by simp
  then show ?thesis using Some by (auto simp: hash_at_def split: option.splits)
qed

lemma indexed_publisher:
  assumes "indexed K \<rho>"
  shows "publishes \<rho> s t \<Longrightarrow> hash_at K (buildPublisherKey s) = Some (map_of (serializeTask t))"
    "\<nexists>t. publishes \<rho> s t \<Longrightarrow> K (buildPublisherKey s) = None"
  using assms by (auto simp: indexed_def rep_publishers_def)

text \<open>The commands of one removal act on the keyspace as removal acts on the registry.\<close>

lemma indexed_dereg:
  assumes rep: "indexed K \<rho>" and old: "\<rho> (s, c) = Some t"
  shows "indexed
    (fold apply_cmd (dereg_cmds \<lparr>streamName = s, clientId = c, ident_type = task_type t\<rparr>) K)
    (spec_deregister s c \<rho>)"
proof -
  obtain m where m: "hash_at K buildGlobalPlayerCountKey = Some m"
    "redis_int (m ''total'') = Some (int (card (players \<rho>)))" "int64_range (int (card (players \<rho>)))"
    using rep by (rule indexed_total)
  note sets = indexed_sets [OF rep]
  show ?thesis
  proof (cases "task_type t")
    case PUBLISHER
    then show ?thesis
      unfolding spec_deregister_def
      by (intro indexed_removeI [OF rep old, where m = m])
        (auto simp: sets m entry_keys_def)
  next
    case PLAYER
    have "players \<rho> \<noteq> {}" using old PLAYER by (auto simp: players_def)
    then have "0 < card (players \<rho>)"
      using finite_players [OF indexed_valid [OF rep]] by (simp add: card_gt_0_iff)
    then have r: "int64_range (int (card (players \<rho>)) - 1)"
      using m(3) by (simp add: int64_range_def)
    then have "incr_result m ''total'' (-1) = Some (int (card (players \<rho>)) - 1)"
      using m by (simp add: incr_result_def)
    then show ?thesis
      unfolding spec_deregister_def using PLAYER r
      by (intro indexed_removeI [OF rep old,
            where m = "m(''total'' \<mapsto> to_string (int (card (players \<rho>)) - 1))"])
        (auto simp: sets m entry_keys_def)
  qed
qed

lemma dereg_cmds_times [simp]:
  "fold apply_cmd (dereg_cmds i) K buildTaskTimestampZSetKey = K buildTaskTimestampZSetKey"
  by (auto split: StreamType.splits option.splits)

lemma rep_times_same:
  assumes "rep_times K \<rho>" "L buildTaskTimestampZSetKey = K buildTaskTimestampZSetKey" "dom \<sigma> \<subseteq> dom \<rho>"
  shows "rep_times L \<sigma>"
  using assms unfolding rep_times_def at_cong(3) [of L buildTaskTimestampZSetKey K, OF assms(2)] by blast

lemma represents_dereg:
  assumes "represents K \<rho>" "\<rho> (s, c) = Some t"
  shows "represents
    (fold apply_cmd (dereg_cmds \<lparr>streamName = s, clientId = c, ident_type = task_type t\<rparr>) K)
    (spec_deregister s c \<rho>)"
  using assms indexed_dereg [of K \<rho> s c t]
  by (auto simp: represents_def spec_deregister_def simp del: dereg_cmds.simps
      intro!: rep_times_same [of K \<rho>] split: if_splits)

lemma represents_indexed: "represents K \<rho> \<Longrightarrow> indexed K \<rho>"
  by (simp add: represents_def)

lemma represents_zset:
  assumes "represents K \<rho>"
  obtains z where "zset_at K buildTaskTimestampZSetKey = Some z" "dom z \<subseteq> task_keys"
    "\<And>s c. (s, c) \<in> dom \<rho> \<Longrightarrow> buildTaskKey s c \<in> dom z"
  using assms unfolding represents_def rep_times_def by blast

lemma indexed_put_zset: "indexed K \<rho> \<Longrightarrow> indexed (put_zset buildTaskTimestampZSetKey z K) \<rho>"
  unfolding indexed_def rep_defs by (simp cong: option.case_cong)

lemma represents_put_zset:
  assumes "indexed K \<rho>" "dom z \<subseteq> task_keys" "\<And>s c. (s, c) \<in> dom \<rho> \<Longrightarrow> buildTaskKey s c \<in> dom z"
  shows "represents (put_zset buildTaskTimestampZSetKey z K) \<rho>"
  using assms by (auto simp: represents_def indexed_put_zset rep_times_def)

section \<open>Queries and removal refine the registry\<close>

definition found_publisher :: "registry \<Rightarrow> string \<Rightarrow> StreamTask option \<Rightarrow> bool" where
  "found_publisher \<rho> s r \<longleftrightarrow>
     (case r of None \<Rightarrow> \<nexists>t. publishes \<rho> s t | Some t \<Rightarrow> publishes \<rho> s t)"

context redis_reliable
begin

lemma load_task:
  assumes "hash_at K k = Some (map_of (serializeTask t))" "storable t"
  shows "yields view K (getTaskByKey (ready R) k) (Some (stored t)) K"
proof -
  have "ps \<noteq> [] \<and> deserializeTask ps = Some (stored t)" if "map_of ps = map_of (serializeTask t)" for ps
    using that deserializeTask_cong [OF that] deserializeTask_serializeTask [OF assms(2)]
    by (metis map_of_eq_empty_iff serializeTask_nonempty)
  then show ?thesis
    unfolding getTaskByKey_def by (auto intro!: outcome_bind [OF hashGetAll_ok [OF assms(1)]])
qed

lemma load_absent:
  assumes "K k = None"
  shows "yields view K (getTaskByKey (ready R) k) None K"
proof -
  have "hash_at K k = Some Map.empty" using assms by (rule at_absent)
  then show ?thesis
    unfolding getTaskByKey_def by (auto intro!: outcome_bind [OF hashGetAll_ok])
qed

lemma getTask_ok:
  assumes "indexed K \<rho>" "colon_free c"
  shows "yields view K (getTask (ready R) s c) (\<rho> (s, c)) K"
proof (cases "\<rho> (s, c)")
  case None
  then show ?thesis
    unfolding getTask_def
    using load_absent [of K "buildTaskKey s c"] indexed_no_task [OF assms None] by simp
next
  case (Some t)
  note v = valid_registryD [OF indexed_valid [OF assms(1)] Some]
  show ?thesis
    unfolding getTask_def using load_task [OF indexed_task [OF assms(1) Some] v(4)] Some v(5) by simp
qed

lemma getPublisherTask_ok:
  assumes "indexed K \<rho>"
  shows "outcome view K (getPublisherTask (ready R) s) (\<lambda>r L. found_publisher \<rho> s r \<and> L = K)"
proof (cases "\<exists>t. publishes \<rho> s t")
  case True
  then obtain t where t: "publishes \<rho> s t" by blast
  then have v: "storable t" "stored t = t"
    using valid_registryD [OF indexed_valid [OF assms]] by (auto simp: publishes_def)
  have "ps \<noteq> [] \<and> map_of ps ''active'' = Some ''1'' \<and> deserializeTask ps = Some t"
    if "map_of ps = map_of (serializeTask t)" for ps
    using that deserializeTask_cong [OF that] deserializeTask_serializeTask [OF v(1)] v(2)
      serializeTask_lookup(3) [of t]
    by (metis map_of_eq_empty_iff serializeTask_nonempty)
  then show ?thesis
    unfolding getPublisherTask_def using t
    by (auto intro!: outcome_bind [OF hashGetAll_ok [OF indexed_publisher(1) [OF assms t]]]
        simp: found_publisher_def)
next
  case False
  have "hash_at K (buildPublisherKey s) = Some Map.empty"
    using indexed_publisher(2) [OF assms False] by (rule at_absent)
  then show ?thesis
    unfolding getPublisherTask_def using False
    by (auto intro!: outcome_bind [OF hashGetAll_ok] simp: found_publisher_def)
qed

lemma deregisterTasksBatch_ok:
  "yields view K (deregisterTasksBatch (ready R) is) (Inr (length is))
     (fold apply_cmd (concat (map dereg_cmds is)) K)"
  unfolding deregisterTasksBatch_def
  by (auto intro!: outcome_bindE [OF exec_pipeline_ok] simp del: dereg_cmds.simps)

lemma deregisterTask_present:
  assumes "indexed K \<rho>" "\<rho> (s, c) = Some t"
  shows "yields view K (deregisterTask (ready R) s c) (Inr True)
    (fold apply_cmd (dereg_cmds \<lparr>streamName = s, clientId = c, ident_type = task_type t\<rparr>) K)"
  unfolding deregisterTask_def
  using assms(2) valid_registryD(3) [OF indexed_valid [OF assms(1)] assms(2)]
  by (auto intro!: yields_bind [OF getTask_ok [OF assms(1)]] yields_bindE [OF deregisterTasksBatch_ok]
      simp del: dereg_cmds.simps)

lemma deregisterTask_ok:
  assumes "represents K \<rho>" "colon_free c"
  shows "outcome view K (deregisterTask (ready R) s c)
    (\<lambda>r L. r = Inr True \<and> represents L (spec_deregister s c \<rho>))"
proof (cases "\<rho> (s, c)")
  case None
  have idx: "indexed K \<rho>" using assms(1) by (simp add: represents_def)
  obtain z where z: "zset_at K buildTaskTimestampZSetKey = Some z" "dom z \<subseteq> task_keys"
    "\<And>s c. (s, c) \<in> dom \<rho> \<Longrightarrow> buildTaskKey s c \<in> dom z"
    using represents_zset [OF assms(1)] by blast
  have "represents (put_zset buildTaskTimestampZSetKey (z(buildTaskKey s c := None)) K) \<rho>"
    using z None assms(2) valid_registryD(3) [OF indexed_valid [OF idx]]
    by (intro represents_put_zset idx) (auto simp: domIff)
  moreover have "spec_deregister s c \<rho> = \<rho>"
    using None by (auto simp: spec_deregister_def)
  ultimately show ?thesis
    unfolding deregisterTask_def using None
    by (auto intro!: yields_bind [OF getTask_ok [OF idx assms(2)]] yields_bind [OF zsetRem_ok [OF z(1)]])
next
  case (Some t)
  have idx: "indexed K \<rho>" using assms(1) by (simp add: represents_def)
  show ?thesis
    by (rule outcome_mono [OF deregisterTask_present [OF idx Some]])
      (use represents_dereg [OF assms(1) Some] in simp)
qed

end

section \<open>Registration refines the registry\<close>

text \<open>
  The tasks a registration accepts: a client id without the key separator, fields the codec reads
  back, room in the 64-bit counter, and no publisher registering over its own player entry.
\<close>

definition registrable :: "registry \<Rightarrow> StreamTask \<Rightarrow> bool" where
  "registrable \<rho> t \<longleftrightarrow> colon_free (client_id t) \<and> storable t
     \<and> int (card (players \<rho>)) + 1 < 2 ^ 63
     \<and> (case \<rho> (stream_name t, client_id t) of
          None \<Rightarrow> True
        | Some u \<Rightarrow> task_type t = PUBLISHER \<longrightarrow> task_type u = PUBLISHER)"

text \<open>What a registration makes of the registry, the clock included.\<close>

definition registered :: "registry \<Rightarrow> int \<Rightarrow> StreamTask \<Rightarrow> registry" where
  "registered \<rho> now t =
     (if taken \<rho> t then \<rho>
      else if reasonable_ms now then spec_register t \<rho>
      else spec_deregister (stream_name t) (client_id t) \<rho>)"

text \<open>The score under which a task is found by the scan.\<close>

definition scored :: "keyspace \<Rightarrow> StreamTask \<Rightarrow> int \<Rightarrow> bool" where
  "scored K t now \<longleftrightarrow> (\<exists>z. zset_at K buildTaskTimestampZSetKey = Some z
     \<and> z (buildTaskKey (stream_name t) (client_id t)) = Some now)"

lemma registrable_remove:
  assumes "registrable \<rho> t" "valid_registry \<rho>"
  shows "registrable (\<rho>((stream_name t, client_id t) := None)) t"
proof -
  have "card (players \<rho> - {(stream_name t, client_id t)}) \<le> card (players \<rho>)"
    by (rule card_mono) (use finite_players [OF assms(2)] in auto)
  then show ?thesis
    using assms(1) by (simp add: registrable_def players_remove)
qed

text \<open>A publisher of a stream without one has no entry of its own either.\<close>

lemma registrable_new:
  assumes "valid_registry \<rho>" "registrable \<rho> t" "task_type t = PUBLISHER" "\<nexists>u. publishes \<rho> (stream_name t) u"
  shows "\<rho> (stream_name t, client_id t) = None"
proof (cases "\<rho> (stream_name t, client_id t)")
  case (Some u)
  then have "publishes \<rho> (stream_name t) u"
    using assms(2,3) valid_registryD(2) [OF assms(1) Some] by (simp add: registrable_def publishes_def)
  then show ?thesis using assms(4) by blast
qed

lemma valid_task_stored:
  "registrable \<rho> t \<Longrightarrow> valid_task (stream_name t) (client_id t) (stored t)"
  by (simp add: valid_task_def registrable_def)

context redis_reliable
begin

lemma write_hash_ok:
  assumes "K k = None"
  shows "yields view K (hashSet (ready R) k (serializeTask t)) True
    (K(k \<mapsto> (RHash (map_of (serializeTask t)), None)))"
proof -
  have "map_of (serializeTask t) \<noteq> Map.empty" by (simp only: map_of_eq_empty_iff) simp
  then show ?thesis
    using hashSet_ok [of K k Map.empty "serializeTask t"] assms
    by (simp add: at_absent put_hash_def ttl_at_def)
qed

lemma registerPlayerIndices_ok:
  assumes "set_at K (memberKey (stream_name t)) = Some S"
    and "hash_at K buildGlobalPlayerCountKey = Some m" "incr_result m ''total'' 1 = Some n"
  shows "yields view K (registerPlayerIndices (ready R) t) True
    (put_hash buildGlobalPlayerCountKey (m(''total'' \<mapsto> to_string n))
      (put_set (memberKey (stream_name t)) (insert (client_id t) S) K))"
  unfolding registerPlayerIndices_def
  using assms by (auto intro!: yields_bind [OF setAdd_ok [OF assms(1)]] yields_bind [OF hashIncrBy_ok])

lemma registerPublisherIndices_ok:
  assumes "K (buildPublisherKey (stream_name t)) = None"
  shows "yields view K (registerPublisherIndices (ready R) t) (Inr True)
    (fold apply_cmd [HSET (buildPublisherKey (stream_name t)) (serializeTask t),
       SADD (memberKey (stream_name t)) [client_id t],
       SADD buildActivePublishersKey [stream_name t]] K)"
  unfolding registerPublisherIndices_def
  by (auto intro!: yields_bind [OF load_absent [of K, OF assms]] outcome_bindE [OF exec_pipeline_ok])

text \<open>After the task hash is written, the index step completes the entry.\<close>

lemma register_indices_ok:
  fixes t :: StreamTask
  defines "tk \<equiv> buildTaskKey (stream_name t) (client_id t)"
  assumes idx: "indexed K \<rho>" and reg: "registrable \<rho> t"
    and new: "\<rho> (stream_name t, client_id t) = None"
    and free: "task_type t = PUBLISHER \<Longrightarrow> \<nexists>u. publishes \<rho> (stream_name t) u"
  shows "outcome view (K(tk \<mapsto> (RHash (map_of (serializeTask t)), Some TASK_TTL_SEC)))
    (if task_type t = PUBLISHER then registerPublisherIndices (ready R) t
     else do { b \<leftarrow> registerPlayerIndices (ready R) t; ok b })
    (\<lambda>r L. r = Inr True \<and> indexed L (\<rho>((stream_name t, client_id t) \<mapsto> stored t))
       \<and> L buildTaskTimestampZSetKey = K buildTaskTimestampZSetKey)"
    (is "outcome view ?K _ _")
proof -
  note sets = indexed_sets [OF idx]
  obtain m where m: "hash_at K buildGlobalPlayerCountKey = Some m"
    "redis_int (m ''total'') = Some (int (card (players \<rho>)))" "int64_range (int (card (players \<rho>)))"
    using idx by (rule indexed_total)
  note insertI = indexed_insertI [OF idx new valid_task_stored [OF reg]]
  show ?thesis
  proof (cases "task_type t")
    case PUBLISHER
    note none = indexed_publisher(2) [OF idx free [OF PUBLISHER]]
    have k: "?K (buildPublisherKey (stream_name t)) = None"
      using none by (simp add: tk_def)
    have ne: "map_of (serializeTask t) \<noteq> Map.empty" by (simp only: map_of_eq_empty_iff) simp
    define L where "L = fold apply_cmd [HSET (buildPublisherKey (stream_name t)) (serializeTask t),
       SADD (memberKey (stream_name t)) [client_id t],
       SADD buildActivePublishersKey [stream_name t]] ?K"
    have "indexed L (\<rho>((stream_name t, client_id t) \<mapsto> stored t))"
      using PUBLISHER free k
      by (intro insertI [where m = m]) (auto simp: L_def sets m entry_keys_def tk_def at_absent)
    moreover have "L buildTaskTimestampZSetKey = K buildTaskTimestampZSetKey"
      by (simp add: L_def tk_def at_absent sets none)
    ultimately show ?thesis
      using PUBLISHER registerPublisherIndices_ok [of ?K, OF k]
      unfolding L_def [symmetric] by (auto elim: outcome_mono)
  next
    case PLAYER
    have r: "int64_range (int (card (players \<rho>)) + 1)"
      using reg by (simp add: registrable_def int64_range_def)
    have s2: "set_at ?K (memberKey (stream_name t)) = Some {c. (stream_name t, c) \<in> dom \<rho>}"
      by (simp add: tk_def sets)
    have m2: "hash_at ?K buildGlobalPlayerCountKey = Some m"
      by (simp add: tk_def m)
    have inc: "incr_result m ''total'' 1 = Some (int (card (players \<rho>)) + 1)"
      using m r by (simp add: incr_result_def)
    define L where "L = put_hash buildGlobalPlayerCountKey
        (m(''total'' \<mapsto> to_string (int (card (players \<rho>)) + 1)))
        (put_set (memberKey (stream_name t)) (insert (client_id t) {c. (stream_name t, c) \<in> dom \<rho>}) ?K)"
    have "indexed L (\<rho>((stream_name t, client_id t) \<mapsto> stored t))"
      using PLAYER r
      by (intro insertI [where m = "m(''total'' \<mapsto> to_string (int (card (players \<rho>)) + 1))"])
        (auto simp: L_def sets m entry_keys_def tk_def)
    moreover have "L buildTaskTimestampZSetKey = K buildTaskTimestampZSetKey"
      by (simp add: L_def tk_def)
    ultimately have "outcome view ?K (do { b \<leftarrow> registerPlayerIndices (ready R) t; ok b })
      (\<lambda>r L. r = Inr True \<and> indexed L (\<rho>((stream_name t, client_id t) \<mapsto> stored t))
         \<and> L buildTaskTimestampZSetKey = K buildTaskTimestampZSetKey)"
      by (intro yields_bind [OF registerPlayerIndices_ok [OF s2 m2 inc]]) (simp add: L_def [symmetric])
    then show ?thesis using PLAYER by simp
  qed
qed

text \<open>
  Writing a task whose key is free: with an acceptable clock the entry is added; otherwise the
  roll-back leaves the registry as it was.
\<close>

lemma registerTask_write_ok:
  assumes rep: "represents K \<rho>" and reg: "registrable \<rho> t"
    and new: "\<rho> (stream_name t, client_id t) = None"
    and free: "task_type t = PUBLISHER \<Longrightarrow> \<nexists>u. publishes \<rho> (stream_name t) u"
  shows "outcome view K (registerTask_write (ready R) now t)
    (\<lambda>r L. r = Inr (reasonable_ms now) \<and> (reasonable_ms now \<longrightarrow> scored L t now) \<and> represents L
       (if reasonable_ms now then \<rho>((stream_name t, client_id t) \<mapsto> stored t) else \<rho>))"
proof -
  define s c tk where "s = stream_name t" and "c = client_id t" and "tk = buildTaskKey s c"
  define \<sigma> where "\<sigma> = \<rho>((s, c) \<mapsto> stored t)"
  have idx: "indexed K \<rho>" using rep by (simp add: represents_def)
  have c: "colon_free c" using reg by (simp add: registrable_def c_def)
  have absent: "K tk = None"
    using indexed_no_task [OF idx c] new by (simp add: tk_def s_def c_def)
  obtain z where z: "zset_at K buildTaskTimestampZSetKey = Some z" "dom z \<subseteq> task_keys"
    "\<And>s c. (s, c) \<in> dom \<rho> \<Longrightarrow> buildTaskKey s c \<in> dom z"
    using represents_zset [OF rep] by blast
  have roll: "outcome view L (deregisterTask (ready R) s c) (\<lambda>r L'. r = Inr True \<and> represents L' \<rho>)"
    if L: "indexed L \<sigma>" "L buildTaskTimestampZSetKey = K buildTaskTimestampZSetKey" for L
  proof -
    have at: "\<sigma> (s, c) = Some (stored t)" by (simp add: \<sigma>_def)
    have "spec_deregister s c \<sigma> = \<rho>"
      using new by (auto simp: spec_deregister_def \<sigma>_def s_def c_def)
    with indexed_dereg [OF L(1) at] show ?thesis
      using rep L(2)
      by (intro outcome_mono [OF deregisterTask_present [OF L(1) at]])
        (auto simp: represents_def simp del: dereg_cmds.simps intro: rep_times_same [of K \<rho>])
  qed
  have z3: "\<exists>y. z (buildTaskKey s' c') = Some y" if "\<rho> (s', c') = Some u" for s' c' u
    using z(3) [of s' c'] that by auto
  have add: "represents (put_zset buildTaskTimestampZSetKey (z(tk \<mapsto> now)) L) \<sigma>"
    if "indexed L \<sigma>" for L
    using that z(2) z3 c
    by (intro represents_put_zset) (auto simp: \<sigma>_def task_keys_def tk_def split: if_splits)
  have score: "scored (put_zset buildTaskTimestampZSetKey (z(tk \<mapsto> now)) L) t now" for L
    by (simp add: scored_def tk_def s_def c_def)
  have step: "outcome view (K(tk \<mapsto> (RHash (map_of (serializeTask t)), Some TASK_TTL_SEC)))
    (if task_type t = PUBLISHER then registerPublisherIndices (ready R) t
     else do { b \<leftarrow> registerPlayerIndices (ready R) t; ok b })
    (\<lambda>r L. r = Inr True \<and> indexed L \<sigma> \<and> L buildTaskTimestampZSetKey = K buildTaskTimestampZSetKey)"
    using register_indices_ok [OF idx reg new free] by (simp add: tk_def s_def c_def \<sigma>_def)
  have zl: "zset_at L buildTaskTimestampZSetKey = Some z"
    if "L buildTaskTimestampZSetKey = K buildTaskTimestampZSetKey" for L
    using z(1) at_cong(3) [of L buildTaskTimestampZSetKey K, OF that] by simp
  have ttl: "yields view (K(tk \<mapsto> (RHash (map_of (serializeTask t)), None)))
     (keyExpire (ready R) tk TASK_TTL_SEC) True
     (K(tk \<mapsto> (RHash (map_of (serializeTask t)), Some TASK_TTL_SEC)))"
    using keyExpire_ok [of "K(tk \<mapsto> (RHash (map_of (serializeTask t)), None))" tk
        "RHash (map_of (serializeTask t))" None TASK_TTL_SEC]
    by (simp add: TASK_TTL_SEC_def)
  show ?thesis
    unfolding registerTask_write_def Let_def s_def [symmetric] c_def [symmetric] tk_def [symmetric]
      \<sigma>_def [symmetric]
    apply (rule yields_bind [OF write_hash_ok [of K tk, OF absent]])
    apply (simp only: not_True_eq_False if_False)
    apply (rule yields_bind [OF ttl])
    apply (simp only: not_True_eq_False if_False)
    apply (rule outcome_bindE [OF step])
     apply (auto simp: reasonable_ms_def intro!: outcome_bindE [OF roll] yields_bind [OF zsetAdd_ok [OF zl]]
        outcome_return add score)
    done
qed

lemma reregister_ok:
  assumes rep: "represents K \<rho>" and reg: "registrable \<rho> t" and nt: "\<not> taken \<rho> t"
  shows "outcome view K (bindE (deregisterTask (ready R) (stream_name t) (client_id t))
      (\<lambda>_. registerTask_write (ready R) now t))
    (\<lambda>r L. r = Inr (reasonable_ms now) \<and> (reasonable_ms now \<longrightarrow> scored L t now)
       \<and> represents L (registered \<rho> now t))"
proof -
  let ?\<sigma> = "\<rho>((stream_name t, client_id t) := None)"
  have v: "valid_registry \<rho>" using rep by (simp add: represents_def indexed_def)
  have c: "colon_free (client_id t)" using reg by (simp add: registrable_def)
  have free: "\<nexists>u. publishes ?\<sigma> (stream_name t) u" if "task_type t = PUBLISHER"
    using nt that by (auto simp: taken_def publishes_remove)
  have reg': "registrable ?\<sigma> t" using registrable_remove [OF reg v] .
  have "outcome view L (registerTask_write (ready R) now t)
      (\<lambda>r L. r = Inr (reasonable_ms now) \<and> (reasonable_ms now \<longrightarrow> scored L t now)
       \<and> represents L (registered \<rho> now t))"
    if "represents L ?\<sigma>" for L
    using registerTask_write_ok [OF that reg' _ free, of now] nt
    by (auto simp: registered_def spec_register_def spec_deregister_def elim!: outcome_mono)
  then show ?thesis
    by (auto intro!: outcome_bindE [OF deregisterTask_ok [OF rep c]] simp: spec_deregister_def)
qed

lemma registerTask_fresh:
  assumes "represents K \<rho>" "registrable \<rho> t" "\<not> taken \<rho> t" "\<rho> (stream_name t, client_id t) = None"
    and "task_type t = PUBLISHER \<Longrightarrow> \<nexists>u. publishes \<rho> (stream_name t) u"
  shows "outcome view K (registerTask_write (ready R) now t)
    (\<lambda>r L. r = Inr (reasonable_ms now) \<and> (reasonable_ms now \<longrightarrow> scored L t now)
       \<and> represents L (registered \<rho> now t))"
proof -
  have "\<rho>((stream_name t, client_id t) := None) = \<rho>" using assms(4) by auto
  then show ?thesis
    using registerTask_write_ok [OF assms(1,2,4,5), of now] assms(3)
    by (auto simp: registered_def spec_register_def spec_deregister_def elim!: outcome_mono)
qed

lemma registerTask_ok:
  assumes rep: "represents K \<rho>" and reg: "registrable \<rho> t"
  shows "outcome view K (registerTask (ready R) now t)
    (\<lambda>r L. r = Inr (\<not> taken \<rho> t \<and> reasonable_ms now)
       \<and> (\<not> taken \<rho> t \<and> reasonable_ms now \<longrightarrow> scored L t now) \<and> represents L (registered \<rho> now t))"
proof (cases "task_type t")
  case PUBLISHER
  have idx: "indexed K \<rho>" using rep by (simp add: represents_def)
  have none: "\<not> taken \<rho> t \<and> \<rho> (stream_name t, client_id t) = None"
    if no: "\<nexists>u. publishes \<rho> (stream_name t) u"
    using no registrable_new [OF indexed_valid [OF idx] reg PUBLISHER no] by (simp add: taken_def)
  have some: "taken \<rho> t \<longleftrightarrow> client_id u \<noteq> client_id t" if "publishes \<rho> (stream_name t) u" for u
    using taken_iff [OF indexed_valid [OF idx] that] PUBLISHER by simp
  show ?thesis
    unfolding registerTask_def if_P [OF PUBLISHER]
  proof (rule outcome_bind [OF getPublisherTask_ok [OF idx]])
    fix r L assume r: "found_publisher \<rho> (stream_name t) r \<and> L = K"
    show "outcome view L (case r of
          Some p \<Rightarrow> if client_id p \<noteq> client_id t then ok False
            else bindE (deregisterTask (ready R) (stream_name t) (client_id t))
                   (\<lambda>_. registerTask_write (ready R) now t)
        | None \<Rightarrow> registerTask_write (ready R) now t)
      (\<lambda>r L. r = Inr (\<not> taken \<rho> t \<and> reasonable_ms now)
       \<and> (\<not> taken \<rho> t \<and> reasonable_ms now \<longrightarrow> scored L t now) \<and> represents L (registered \<rho> now t))"
    proof (cases r)
      case None
      then have "\<nexists>u. publishes \<rho> (stream_name t) u" using r by (simp add: found_publisher_def)
      with None r registerTask_fresh [OF rep reg] none show ?thesis by simp
    next
      case (Some p)
      then have "taken \<rho> t \<longleftrightarrow> client_id p \<noteq> client_id t"
        using r some by (simp add: found_publisher_def)
      then show ?thesis
        using Some r reregister_ok [OF rep reg] rep
        by (cases "taken \<rho> t") (simp_all add: registered_def)
    qed
  qed
next
  case PLAYER
  have nt: "\<not> taken \<rho> t" using PLAYER by (simp add: taken_def)
  have c: "colon_free (client_id t)" using reg by (simp add: registrable_def)
  have idx: "indexed K \<rho>" using rep by (simp add: represents_def)
  have live: "buildTaskKey (stream_name t) (client_id t) \<in> dom K \<longleftrightarrow> (stream_name t, client_id t) \<in> dom \<rho>"
    by (rule indexed_task_live [OF idx c])
  show ?thesis
  proof (cases "(stream_name t, client_id t) \<in> dom \<rho>")
    case True
    show ?thesis
      unfolding registerTask_def using PLAYER nt True live reregister_ok [OF rep reg nt, of now]
      by (simp add: yields_bind [OF keyExists_ok] del: domIff)
  next
    case False
    then have "\<rho> (stream_name t, client_id t) = None" by auto
    then show ?thesis
      unfolding registerTask_def using PLAYER nt False live registerTask_fresh [OF rep reg nt, of now]
      by (simp add: yields_bind [OF keyExists_ok] del: domIff)
  qed
qed

end

section \<open>Clearing a stream\<close>

definition without :: "string \<Rightarrow> string set \<Rightarrow> registry \<Rightarrow> registry" where
  "without s C \<rho> = (\<lambda>k. if fst k = s \<and> snd k \<in> C then None else \<rho> k)"

definition targets :: "registry \<Rightarrow> string \<Rightarrow> string list \<Rightarrow> TaskIdentifier list" where
  "targets \<rho> s cs = map (\<lambda>c. \<lparr>streamName = s, clientId = c, ident_type = task_type (the (\<rho> (s, c)))\<rparr>) cs"

lemma represents_dereg_list:
  assumes "represents K \<rho>" "distinct cs" "\<And>c. c \<in> set cs \<Longrightarrow> (s, c) \<in> dom \<rho>"
  shows "represents (fold apply_cmd (concat (map dereg_cmds (targets \<rho> s cs))) K) (without s (set cs) \<rho>)"
  using assms
proof (induction cs arbitrary: K \<rho>)
  case Nil
  then show ?case by (simp add: targets_def without_def)
next
  case (Cons c cs)
  obtain t where t: "\<rho> (s, c) = Some t" using Cons.prems(3) by fastforce
  let ?\<sigma> = "spec_deregister s c \<rho>"
  have rest: "(s, d) \<in> dom ?\<sigma>" if "d \<in> set cs" for d
    using that Cons.prems(2) Cons.prems(3) [of d] by (auto simp: spec_deregister_def)
  have tg: "targets \<rho> s (c # cs) =
      \<lparr>streamName = s, clientId = c, ident_type = task_type t\<rparr> # targets \<rho> s cs"
    using t by (simp add: targets_def)
  have "targets ?\<sigma> s cs = targets \<rho> s cs"
    using Cons.prems(2) by (auto simp: targets_def spec_deregister_def)
  moreover have "without s (set cs) ?\<sigma> = without s (set (c # cs)) \<rho>"
    by (auto simp: without_def spec_deregister_def fun_eq_iff)
  moreover have "represents (fold apply_cmd (concat (map dereg_cmds (targets ?\<sigma> s cs)))
      (fold apply_cmd (dereg_cmds \<lparr>streamName = s, clientId = c, ident_type = task_type t\<rparr>) K))
      (without s (set cs) ?\<sigma>)"
    using Cons.prems(2) rest by (intro Cons.IH represents_dereg [OF Cons.prems(1) t]) simp_all
  ultimately show ?case
    using t tg by (simp del: dereg_cmds.simps)
qed

lemma represents_drop_members:
  assumes "represents K \<rho>" "\<And>c. (s, c) \<notin> dom \<rho>"
  shows "represents (K(memberKey s := None)) \<rho>"
proof -
  have "set_at (K(memberKey s := None)) (memberKey s') = set_at K (memberKey s')" for s'
    using assms(2) indexed_sets(1) [of K \<rho> s] assms(1) by (cases "s' = s") (auto simp: represents_def)
  then show ?thesis
    using assms(1) unfolding represents_def indexed_def rep_defs by (simp cong: option.case_cong)
qed

context redis_reliable
begin

lemma member_targets_ok:
  assumes "indexed K \<rho>" "\<And>c. c \<in> set cs \<Longrightarrow> (s, c) \<in> dom \<rho>"
  shows "yields view K (member_targets (ready R) s cs) (targets \<rho> s cs) K"
  using assms(2)
proof (induction cs)
  case (Cons c cs)
  obtain t where t: "\<rho> (s, c) = Some t" using Cons.prems by fastforce
  note c = valid_registryD(3) [OF indexed_valid [OF assms(1)] t]
  have IH: "yields view K (member_targets (ready R) s cs) (targets \<rho> s cs) K"
    using Cons by simp
  show ?case
    using t by (auto intro!: yields_bind [OF getTask_ok [OF assms(1) c]] yields_bind [OF IH]
      simp: targets_def)
qed (simp add: targets_def)

lemma deregisterAllMembers_ok:
  assumes rep: "represents K \<rho>"
  shows "outcome view K (deregisterAllMembers (ready R) s)
    (\<lambda>r L. r = Inr () \<and> represents L (spec_clear s \<rho>))"
proof -
  have idx: "indexed K \<rho>" using rep by (simp add: represents_def)
  have clear: "represents (L(memberKey s := None)) (spec_clear s \<rho>)"
    if "represents L (without s {c. (s, c) \<in> dom \<rho>} \<rho>)" for L
  proof -
    have "without s {c. (s, c) \<in> dom \<rho>} \<rho> = spec_clear s \<rho>"
      by (auto simp: without_def spec_clear_def fun_eq_iff domIff)
    then show ?thesis
      using that by (intro represents_drop_members) (auto simp: spec_clear_def)
  qed
  have run: "outcome view K (do { tasks \<leftarrow> member_targets (ready R) s cs;
        bindE (deregisterTasksBatch (ready R) tasks) (\<lambda>_. do { _ \<leftarrow> keyDel (ready R) (memberKey s); ok () }) })
      (\<lambda>r L. r = Inr () \<and> represents L (spec_clear s \<rho>))"
    if cs: "distinct cs" "set cs = {c. (s, c) \<in> dom \<rho>}" for cs
    using cs(2) clear represents_dereg_list [OF rep cs(1), of s]
    by (auto intro!: yields_bind [OF member_targets_ok [OF idx]] yields_bindE [OF deregisterTasksBatch_ok]
        yields_bind [OF keyDel_ok] outcome_return simp del: dereg_cmds.simps)
  have none: "represents (K(memberKey s := None)) (spec_clear s \<rho>)" if "\<And>c. (s, c) \<notin> dom \<rho>"
  proof -
    have "without s {c. (s, c) \<in> dom \<rho>} \<rho> = \<rho>" using that by (auto simp: without_def fun_eq_iff domIff)
    then show ?thesis using clear [of K] rep by simp
  qed
  show ?thesis
    unfolding deregisterAllMembers_def getStreamClientIds_def
    using run none
    by (auto intro!: outcome_bind [OF setMembers_ok [OF indexed_sets(1) [OF idx]]]
        yields_bind [OF keyDel_ok] outcome_return)
qed

lemma getActivePublisherCount_ok:
  assumes "indexed K \<rho>"
  shows "yields view K (getActivePublisherCount (ready R)) (card {s. \<exists>t. publishes \<rho> s t}) K"
  unfolding getActivePublisherCount_def by (rule setCard_ok [OF indexed_sets(2) [OF assms]])

lemma getActivePlayerCount_ok:
  assumes "indexed K \<rho>"
  shows "yields view K (getActivePlayerCount (ready R)) (card (players \<rho>)) K"
proof -
  obtain m where m: "hash_at K buildGlobalPlayerCountKey = Some m"
    "redis_int (m ''total'') = Some (int (card (players \<rho>)))" "int64_range (int (card (players \<rho>)))"
    using assms by (rule indexed_total)
  have "(case m ''total'' of Some v \<Rightarrow> (case stoull v of Inr n \<Rightarrow> n | Inl _ \<Rightarrow> 0) | None \<Rightarrow> 0) = card (players \<rho>)"
  proof (cases "m ''total''")
    case None then show ?thesis using m(2) by (simp add: redis_int_def)
  next
    case (Some v)
    then have "v = to_string (int (card (players \<rho>)))"
      using m(2) by (auto simp: redis_int_def split: sum.splits if_splits)
    moreover have "int (card (players \<rho>)) < 2 ^ 64" using m(3) by (simp add: int64_range_def)
    ultimately show ?thesis using Some by (simp add: stoull_to_string)
  qed
  then show ?thesis
    unfolding getActivePlayerCount_def by (auto intro!: outcome_bind [OF hashGetAll_ok [OF m(1)]])
qed

end

section \<open>The time-out scan\<close>

definition idle :: "int \<Rightarrow> int \<Rightarrow> StreamTask \<Rightarrow> bool" where
  "idle now timeout t \<longleftrightarrow> \<not> now - to_ms (last_active_time t) < timeout"

text \<open>The entries a scan over the given keys removes.\<close>

definition lapsed :: "int \<Rightarrow> int \<Rightarrow> string set \<Rightarrow> registry \<Rightarrow> (string \<times> string) set" where
  "lapsed now timeout ks \<rho> =
     {(s, c). buildTaskKey s c \<in> ks \<and> (\<exists>t. \<rho> (s, c) = Some t \<and> idle now timeout t)}"

definition swept :: "int \<Rightarrow> int \<Rightarrow> string set \<Rightarrow> registry \<Rightarrow> registry" where
  "swept now timeout ks \<rho> = (\<lambda>k. if k \<in> lapsed now timeout ks \<rho> then None else \<rho> k)"

definition due :: "keyspace \<Rightarrow> int \<Rightarrow> string set" where
  "due K cutoff = {k. \<exists>z sc. zset_at K buildTaskTimestampZSetKey = Some z \<and> z k = Some sc
     \<and> 0 \<le> sc \<and> sc \<le> cutoff}"

lemma lapsed_Cons_skip:
  assumes "valid_registry \<rho>" "colon_free c" "\<And>t. \<rho> (s, c) = Some t \<Longrightarrow> \<not> idle now timeout t"
  shows "lapsed now timeout (insert (buildTaskKey s c) ks) \<rho> = lapsed now timeout ks \<rho>"
  using assms valid_registryD(3) [OF assms(1)] by (auto simp: lapsed_def)

lemma lapsed_Cons_take:
  assumes "valid_registry \<rho>" "\<rho> (s, c) = Some t" "idle now timeout t" "buildTaskKey s c \<notin> ks"
  shows "lapsed now timeout (insert (buildTaskKey s c) ks) \<rho> =
    insert (s, c) (lapsed now timeout ks (spec_deregister s c \<rho>))"
  using assms valid_registryD(3) [OF assms(1)] by (auto simp: lapsed_def spec_deregister_def)

lemma swept_Cons_take:
  assumes "valid_registry \<rho>" "\<rho> (s, c) = Some t" "idle now timeout t" "buildTaskKey s c \<notin> ks"
  shows "swept now timeout (insert (buildTaskKey s c) ks) \<rho> =
    swept now timeout ks (spec_deregister s c \<rho>)"
  unfolding swept_def lapsed_Cons_take [OF assms] by (auto simp: spec_deregister_def)

definition scan_result :: "int \<Rightarrow> int \<Rightarrow> string set \<Rightarrow> registry \<Rightarrow> StreamTask list \<Rightarrow> bool" where
  "scan_result now timeout ks \<rho> ts \<longleftrightarrow>
     distinct ts \<and> set ts = (\<lambda>k. the (\<rho> k)) ` lapsed now timeout ks \<rho>"

lemma scan_result_take:
  assumes "valid_registry \<rho>" "\<rho> (s, c) = Some t" "idle now timeout t" "buildTaskKey s c \<notin> ks"
    and "scan_result now timeout ks (spec_deregister s c \<rho>) ts"
  shows "scan_result now timeout (insert (buildTaskKey s c) ks) \<rho> (t # ts)"
proof -
  let ?A = "lapsed now timeout ks (spec_deregister s c \<rho>)"
  have ne: "k \<noteq> (s, c)" if "k \<in> ?A" for k
    using that by (auto simp: lapsed_def spec_deregister_def)
  have img: "(\<lambda>k. the (spec_deregister s c \<rho> k)) ` ?A = (\<lambda>k. the (\<rho> k)) ` ?A"
    using ne by (intro image_cong) (auto simp: spec_deregister_def)
  have "t \<noteq> the (\<rho> k)" if k: "k \<in> ?A" for k
  proof -
    obtain u where u: "\<rho> k = Some u"
      using k ne [OF k] by (auto simp: lapsed_def spec_deregister_def split: if_splits)
    then show ?thesis
      using ne [OF k] valid_registryD(1,2) [OF assms(1), of "fst k" "snd k"]
        valid_registryD(1,2) [OF assms(1,2)] by (cases k) auto
  qed
  then show ?thesis
    using assms(2,5) img unfolding scan_result_def lapsed_Cons_take [OF assms(1-4)] by auto
qed

lemma task_keysE:
  assumes "k \<in> task_keys"
  obtains s c where "k = buildTaskKey s c" "colon_free c"
  using assms by (auto simp: task_keys_def)

context redis_reliable
begin

lemma scan_loop_ok:
  assumes "represents K \<rho>" "distinct keys" "set keys \<subseteq> task_keys"
  shows "outcome view K (scan_loop (ready R) now timeout keys)
    (\<lambda>r L. \<exists>ts. r = Inr ts \<and> scan_result now timeout (set keys) \<rho> ts
       \<and> represents L (swept now timeout (set keys) \<rho>))"
  using assms
proof (induction keys arbitrary: K \<rho>)
  case Nil
  then show ?case by (simp add: scan_result_def lapsed_def swept_def)
next
  case (Cons k keys)
  obtain s c where k: "k = buildTaskKey s c" and c: "colon_free c"
    using Cons.prems(3) task_keysE by (metis insert_subset list.set(2))
  have idx: "indexed K \<rho>" and v: "valid_registry \<rho>"
    using Cons.prems(1) by (auto simp: represents_def indexed_def)
  obtain z where z: "zset_at K buildTaskTimestampZSetKey = Some z" "dom z \<subseteq> task_keys"
    "\<And>s c. (s, c) \<in> dom \<rho> \<Longrightarrow> buildTaskKey s c \<in> dom z"
    using represents_zset [OF Cons.prems(1)] by blast
  define L where "L = put_zset buildTaskTimestampZSetKey (z(k := None)) K"
  have idxL: "indexed L \<rho>" unfolding L_def by (rule indexed_put_zset [OF idx])
  have zL: "zset_at L buildTaskTimestampZSetKey = Some (z(k := None))" by (simp add: L_def)
  have keep: "buildTaskKey s' c' \<in> dom (z(k := None))"
    if in\<rho>: "(s', c') \<in> dom \<rho>" and ne: "(s', c') \<noteq> (s, c)" for s' c'
  proof -
    have "colon_free c'" using valid_registryD(3) [OF v] in\<rho> by blast
    then show ?thesis using z(3) [OF in\<rho>] ne c by (auto simp: k)
  qed
  have ks: "distinct keys" "set keys \<subseteq> task_keys" "k \<notin> set keys" using Cons.prems by auto
  let ?post = "\<lambda>r L. \<exists>ts. r = Inr ts \<and> scan_result now timeout (set (k # keys)) \<rho> ts
       \<and> represents L (swept now timeout (set (k # keys)) \<rho>)"
  have skip: "outcome view M (scan_loop (ready R) now timeout keys) ?post"
    if "represents M \<rho>" "\<And>t. \<rho> (s, c) = Some t \<Longrightarrow> \<not> idle now timeout t" for M
    using Cons.IH [OF that(1) ks(1,2)] lapsed_Cons_skip [OF v c that(2)]
    by (simp add: scan_result_def swept_def k)
  have rem: "yields view K (zsetRem (ready R) buildTaskTimestampZSetKey k) (k \<in> dom z) L"
    unfolding L_def by (rule zsetRem_ok [OF z(1)])
  have load: "yields view L (getTaskByKey (ready R) k) (\<rho> (s, c)) L"
    using getTask_ok [OF idxL c, of s] by (simp add: getTask_def k)
  show ?case
  proof (cases "\<rho> (s, c)")
    case None
    have "represents L \<rho>"
      unfolding L_def
    proof (rule represents_put_zset [OF idx])
      show "buildTaskKey s' c' \<in> dom (z(k := None))" if "(s', c') \<in> dom \<rho>" for s' c'
        using keep [OF that] that None by (cases "(s', c') = (s, c)") auto
    qed (use z(2) in auto)
    then have "outcome view L (scan_loop (ready R) now timeout keys) ?post"
      using skip None by simp
    then show ?thesis
      unfolding scan_loop.simps
      by (intro yields_bind [OF rem]) (cases "k \<in> dom z"; simp add: yields_bind [OF load] None del: domIff)
  next
    case (Some t)
    note t = valid_registryD [OF v Some]
    have kz: "k \<in> dom z" using z(3) Some k by blast
    have "outcome view L (if now - to_ms (last_active_time t) < timeout
        then do {
          _ \<leftarrow> zsetAdd (ready R) buildTaskTimestampZSetKey (to_ms (last_active_time t)) k;
          scan_loop (ready R) now timeout keys }
        else bindE (deregisterTask (ready R) (stream_name t) (client_id t))
          (\<lambda>_. bindE (scan_loop (ready R) now timeout keys) (\<lambda>ts. ok (t # ts)))) ?post"
    proof (cases "idle now timeout t")
      case False
      have "represents (put_zset buildTaskTimestampZSetKey (z(k \<mapsto> to_ms (last_active_time t))) L) \<rho>"
        using z(2,3) kz by (intro represents_put_zset [OF idxL]) auto
      then show ?thesis
        using False skip Some
        by (auto simp: idle_def intro!: yields_bind [OF zsetAdd_ok [OF zL]])
    next
      case True
      let ?M = "fold apply_cmd (dereg_cmds \<lparr>streamName = s, clientId = c, ident_type = task_type t\<rparr>) L"
      have "zset_at ?M buildTaskTimestampZSetKey = Some (z(k := None))"
        using zL at_cong(3) [of ?M buildTaskTimestampZSetKey L, OF dereg_cmds_times] by simp
      moreover have "buildTaskKey s' c' \<in> dom (z(k := None))"
        if "(s', c') \<in> dom (spec_deregister s c \<rho>)" for s' c'
        using that by (intro keep) (auto simp: spec_deregister_def split: if_splits)
      ultimately have "rep_times ?M (spec_deregister s c \<rho>)"
        unfolding rep_times_def using z(2) by (intro exI [of _ "z(k := None)"]) auto
      then have M: "represents ?M (spec_deregister s c \<rho>)"
        using indexed_dereg [OF idxL Some] by (simp add: represents_def del: dereg_cmds.simps)
      have take: "scan_result now timeout (set (k # keys)) \<rho> (t # ts)"
        if "scan_result now timeout (set keys) (spec_deregister s c \<rho>) ts" for ts
        using scan_result_take [OF v Some True _ that] ks(3) by (simp add: k)
      have swept: "swept now timeout (set (k # keys)) \<rho> = swept now timeout (set keys) (spec_deregister s c \<rho>)"
        using swept_Cons_take [OF v Some True, of "set keys"] ks(3) by (simp add: k)
      have "outcome view L (bindE (deregisterTask (ready R) s c)
          (\<lambda>_. bindE (scan_loop (ready R) now timeout keys) (\<lambda>ts. ok (t # ts)))) ?post"
        unfolding swept
        by (rule yields_bindE [OF deregisterTask_present [OF idxL Some]],
            rule outcome_bindE [OF Cons.IH [OF M ks(1,2)]]) (use take in auto)
      then show ?thesis using True t(1,2) by (simp add: idle_def)
    qed
    then show ?thesis
      unfolding scan_loop.simps
      by (intro yields_bind [OF rem]) (simp add: kz yields_bind [OF load] Some Let_def del: domIff)
  qed
qed

lemma scanTimeoutTasks_ok:
  assumes rep: "represents K \<rho>"
  shows "outcome view K (scanTimeoutTasks (ready R) now timeout)
    (\<lambda>r L. \<exists>ts. r = Inr ts \<and> scan_result now timeout (due K (now - timeout)) \<rho> ts
       \<and> represents L (swept now timeout (due K (now - timeout)) \<rho>))"
proof -
  obtain z where z: "zset_at K buildTaskTimestampZSetKey = Some z" "dom z \<subseteq> task_keys"
    by (rule represents_zset [OF rep])
  have d: "due K (now - timeout) = {m. \<exists>s. z m = Some s \<and> 0 \<le> s \<and> s \<le> now - timeout}"
    using z(1) by (auto simp: due_def)
  have "due K (now - timeout) \<subseteq> dom z" unfolding d by auto
  then have "due K (now - timeout) \<subseteq> task_keys" using z(2) by (rule subset_trans)
  then have run: "outcome view K (scan_loop (ready R) now timeout keys)
      (\<lambda>r L. \<exists>ts. r = Inr ts \<and> scan_result now timeout (due K (now - timeout)) \<rho> ts
         \<and> represents L (swept now timeout (due K (now - timeout)) \<rho>))"
    if "distinct keys" "set keys = due K (now - timeout)" for keys
    using scan_loop_ok [OF rep that(1), of now timeout] that(2) by simp
  show ?thesis
    unfolding scanTimeoutTasks_def
  proof (rule outcome_bind [OF zsetRangeByScore_ok [OF z(1)]], elim conjE)
    fix xs L
    assume "distinct xs" "L = K" "set xs = {m. \<exists>s. z m = Some s \<and> 0 \<le> s \<and> s \<le> now - timeout}"
    then show "outcome view L (scan_loop (ready R) now timeout xs)
      (\<lambda>r L. \<exists>ts. r = Inr ts \<and> scan_result now timeout (due K (now - timeout)) \<rho> ts
         \<and> represents L (swept now timeout (due K (now - timeout)) \<rho>))"
      unfolding d [symmetric] using run by blast
  qed
qed

end

end
