(* ===== verification/State_Manager.thy ===== *)
theory State_Manager
  imports Stream_Registry
begin

text \<open>
  The interface \<open>IStreamStateManager\<close> (\<open>include/IStreamStateManager.h\<close>) as the record of its
  virtual methods, the Redis manager as one implementation, and the contract the scheduler relies on
  as a locale. The Redis manager meets the contract on every reliable server (the sublocale), hence
  on the in-memory one.
\<close>

section \<open>The interface and its Redis implementation\<close>

record 'w IStreamStateManager =
  ism_registerTask :: "int \<Rightarrow> StreamTask \<Rightarrow> ('w, bool) call"
  ism_deregisterTask :: "string \<Rightarrow> string \<Rightarrow> ('w, bool) call"
  ism_deregisterAllMembers :: "string \<Rightarrow> ('w, unit) call"
  ism_getStreamClientIds :: "string \<Rightarrow> ('w, string list) state"
  ism_touchTask :: "int \<Rightarrow> string \<Rightarrow> string \<Rightarrow> ('w, bool) call"
  ism_getTask :: "string \<Rightarrow> string \<Rightarrow> ('w, StreamTask option) state"
  ism_getAllPublisherTasks :: "('w, StreamTask list) state"
  ism_getActivePublisherCount :: "('w, nat) state"
  ism_getActivePlayerCount :: "('w, nat) state"
  ism_getPublisherTask :: "string \<Rightarrow> ('w, StreamTask option) state"
  ism_isHealthy :: "('w, bool) call"
  ism_scanTimeoutTasks :: "int \<Rightarrow> int \<Rightarrow> ('w, StreamTask list) call"
  ism_deregisterTasksBatch :: "TaskIdentifier list \<Rightarrow> ('w, nat) call"

definition RedisStreamStateManager :: "'w CacheManager \<Rightarrow> 'w IStreamStateManager" where
  "RedisStreamStateManager cm =
     \<lparr>ism_registerTask = registerTask cm,
      ism_deregisterTask = deregisterTask cm,
      ism_deregisterAllMembers = deregisterAllMembers cm,
      ism_getStreamClientIds = getStreamClientIds cm,
      ism_touchTask = touchTask cm,
      ism_getTask = getTask cm,
      ism_getAllPublisherTasks = getAllPublisherTasks cm,
      ism_getActivePublisherCount = getActivePublisherCount cm,
      ism_getActivePlayerCount = getActivePlayerCount cm,
      ism_getPublisherTask = getPublisherTask cm,
      ism_isHealthy = isHealthy cm,
      ism_scanTimeoutTasks = scanTimeoutTasks cm,
      ism_deregisterTasksBatch = deregisterTasksBatch cm\<rparr>"

section \<open>The contract\<close>

locale stream_state_manager =
  fixes M :: "'w IStreamStateManager" and view :: "'w \<Rightarrow> 'k" and rep :: "'k \<Rightarrow> registry \<Rightarrow> bool"
  assumes rep_valid: "rep K \<rho> \<Longrightarrow> valid_registry \<rho>"
    and register_law: "rep K \<rho> \<Longrightarrow> registrable \<rho> t \<Longrightarrow>
      outcome view K (ism_registerTask M now t)
        (\<lambda>r L. r = Inr (\<not> taken \<rho> t \<and> reasonable_ms now) \<and> rep L (registered \<rho> now t))"
    and deregister_law: "rep K \<rho> \<Longrightarrow> colon_free c \<Longrightarrow>
      outcome view K (ism_deregisterTask M s c)
        (\<lambda>r L. r = Inr True \<and> rep L (spec_deregister s c \<rho>))"
    and clear_law: "rep K \<rho> \<Longrightarrow>
      outcome view K (ism_deregisterAllMembers M s) (\<lambda>r L. r = Inr () \<and> rep L (spec_clear s \<rho>))"
    and get_law: "rep K \<rho> \<Longrightarrow> colon_free c \<Longrightarrow> yields view K (ism_getTask M s c) (\<rho> (s, c)) K"
    and publisher_law: "rep K \<rho> \<Longrightarrow>
      outcome view K (ism_getPublisherTask M s) (\<lambda>r L. found_publisher \<rho> s r \<and> L = K)"
    and clients_law: "rep K \<rho> \<Longrightarrow>
      outcome view K (ism_getStreamClientIds M s)
        (\<lambda>cs L. distinct cs \<and> set cs = {c. (s, c) \<in> dom \<rho>} \<and> L = K)"
    and publisher_count_law: "rep K \<rho> \<Longrightarrow>
      yields view K (ism_getActivePublisherCount M) (card {s. \<exists>t. publishes \<rho> s t}) K"
    and player_count_law: "rep K \<rho> \<Longrightarrow>
      yields view K (ism_getActivePlayerCount M) (card (players \<rho>)) K"
begin

text \<open>A task that was registered is found, as the codec keeps it.\<close>

lemma register_then_get:
  assumes "rep K \<rho>" "registrable \<rho> t" "\<not> taken \<rho> t" "reasonable_ms now"
  shows "outcome view K
    (bindE (ism_registerTask M now t) (\<lambda>_. do { r \<leftarrow> ism_getTask M (stream_name t) (client_id t); ok r }))
    (\<lambda>r L. r = Inr (Some (stored t)) \<and> rep L (spec_register t \<rho>))"
proof (rule outcome_bindE [OF register_law [OF assms(1,2)]])
  fix a L assume *: "Inr a = Inr (\<not> taken \<rho> t \<and> reasonable_ms now) \<and> rep L (registered \<rho> now t)"
  then have L: "rep L (spec_register t \<rho>)" using assms(3,4) by (simp add: registered_def)
  have c: "colon_free (client_id t)" using assms(2) by (simp add: registrable_def)
  show "outcome view L (do { r \<leftarrow> ism_getTask M (stream_name t) (client_id t); ok r })
     (\<lambda>r L. r = Inr (Some (stored t)) \<and> rep L (spec_register t \<rho>))"
    by (rule yields_bind [OF get_law [OF L c]]) (use L assms(3) in \<open>simp add: spec_register_def\<close>)
qed simp

text \<open>A second publisher is refused and the first one stays.\<close>

lemma second_publisher_refused:
  assumes "rep K \<rho>" "registrable \<rho> t" "publishes \<rho> (stream_name t) u"
    and "task_type t = PUBLISHER" "client_id u \<noteq> client_id t"
  shows "outcome view K (ism_registerTask M now t) (\<lambda>r L. r = Inr False \<and> rep L \<rho>)"
  using register_law [OF assms(1,2), of now] taken_iff [OF rep_valid [OF assms(1)] assms(3)] assms(4,5)
  by (auto simp: registered_def elim!: outcome_mono)

text \<open>Clearing a stream removes all of its members and nothing else.\<close>

lemma clear_then_clients:
  assumes "rep K \<rho>"
  shows "outcome view K
    (bindE (ism_deregisterAllMembers M s) (\<lambda>_. do { cs \<leftarrow> ism_getStreamClientIds M s'; ok cs }))
    (\<lambda>r L. \<exists>cs. r = Inr cs \<and> set cs = (if s' = s then {} else {c. (s', c) \<in> dom \<rho>}))"
proof (rule outcome_bindE [OF clear_law [OF assms]])
  fix a L assume "Inr a = Inr () \<and> rep L (spec_clear s \<rho>)"
  then have L: "rep L (spec_clear s \<rho>)" by simp
  have dom: "{c. (s', c) \<in> dom (spec_clear s \<rho>)} = (if s' = s then {} else {c. (s', c) \<in> dom \<rho>})"
    by (auto simp: spec_clear_def split: if_splits)
  show "outcome view L (do { cs \<leftarrow> ism_getStreamClientIds M s'; ok cs })
    (\<lambda>r L. \<exists>cs. r = Inr cs \<and> set cs = (if s' = s then {} else {c. (s', c) \<in> dom \<rho>}))"
    unfolding dom [symmetric] by (rule outcome_bind [OF clients_law [OF L]]) auto
qed simp

end

sublocale redis_reliable \<subseteq> ism: stream_state_manager "RedisStreamStateManager (ready R)" view represents
proof unfold_locales
  show "valid_registry \<rho>" if "represents K \<rho>" for K \<rho>
    using that by (simp add: represents_def indexed_def)
  show "outcome view K (ism_getStreamClientIds (RedisStreamStateManager (ready R)) s)
      (\<lambda>cs L. distinct cs \<and> set cs = {c. (s, c) \<in> dom \<rho>} \<and> L = K)" if "represents K \<rho>" for K \<rho> s
    using that setMembers_ok [OF indexed_sets(1)]
    by (simp add: RedisStreamStateManager_def getStreamClientIds_def represents_def)
qed (auto simp: RedisStreamStateManager_def dest: represents_indexed
    intro!: outcome_mono [OF registerTask_ok] getPublisherTask_ok deregisterTask_ok deregisterAllMembers_ok getTask_ok
      getActivePublisherCount_ok getActivePlayerCount_ok)

context redis_reliable
begin

lemma state_manager: "stream_state_manager (RedisStreamStateManager (ready R)) view represents"
  by (rule ism.stream_state_manager_axioms)

end

end
