(* ===== verification/Registry_Properties.thy ===== *)
theory Registry_Properties
  imports State_Manager
begin

text \<open>
  The properties of the stream registry, over every server that satisfies the laws of
  \<open>Redis_Api\<close>. Those that describe results assume a reliable server; isolation holds for a
  server that fails at any point, with or without having carried out the failing command.
\<close>

section \<open>Concrete data for the examples\<close>

definition demo_pub :: StreamTask where
  "demo_pub = default_task\<lparr> stream_name := ''v/live/s1'', client_id := ''c1'', task_type := PUBLISHER,
     protocol := RTMP, server_ip := ''10.0.0.1'', server_port := 1935,
     start_time := 1700000000000 * 1000000, last_active_time := 1700000000000 * 1000000,
     auth_token := ''tok'' \<rparr>"

definition demo_play :: StreamTask where
  "demo_play = demo_pub\<lparr> client_id := ''c2'', task_type := PLAYER \<rparr>"

definition demo_now :: int where "demo_now = 1700000000000"

lemma demo_reasonable [simp]: "reasonable_ms demo_now"
  by (simp add: demo_now_def reasonable_ms_def MIN_REASONABLE_MS_def MAX_REASONABLE_MS_def)

lemma demo_storable [simp]: "storable demo_pub" "storable demo_play"
  by (simp_all add: storable_def demo_pub_def demo_play_def int32_range_def reasonable_ms_def
      duration_cast_def MIN_REASONABLE_MS_def MAX_REASONABLE_MS_def)

lemma demo_fields [simp]:
  "client_id demo_pub = ''c1''" "client_id demo_play = ''c2''" "task_type demo_pub = PUBLISHER"
  "task_type demo_play = PLAYER" "stream_name demo_pub = ''v/live/s1''" "stream_name demo_play = ''v/live/s1''"
  by (simp_all add: demo_pub_def demo_play_def)

lemma demo_registrable [simp]:
  "registrable Map.empty demo_pub" "registrable Map.empty demo_play"
  by (simp_all add: registrable_def colon_free_def players_def)

lemma demo_not_taken [simp]: "\<not> taken Map.empty t"
  by (simp add: taken_def publishes_def)

lemma mem_view_empty [simp]: "mem_view [] = Map.empty"
  by (simp add: mem_view_def fun_eq_iff)

section \<open>Refinement\<close>



text \<open>
  C12. Removing a client refines removal of its entry: on a reliable server the call returns true,
  whether or not the client was registered, and every index then agrees with the smaller registry.
\<close>

theorem deregisterTask_refines:
  assumes "redis_reliable R view" "represents K \<rho>" "colon_free c"
  shows "outcome view K (deregisterTask (ready R) s c)
    (\<lambda>r L. r = Inr True \<and> represents L (spec_deregister s c \<rho>))"
  using redis_reliable.deregisterTask_ok [OF assms] .

theorem deregisterTask_refines_witness:
  "outcome mem_view Map.empty (deregisterTask (ready mem_redis) ''v/live/s1'' ''c1'')
    (\<lambda>r L. r = Inr True \<and> represents L Map.empty)"
proof -
  have "colon_free ''c1''" by (simp add: colon_free_def)
  from deregisterTask_refines [OF mem.redis_reliable_axioms represents_empty this, of "''v/live/s1''"]
  show ?thesis by (simp add: spec_deregister_def)
qed

text \<open>
  C11. Clearing a stream removes its publisher and all of its players in one batch and leaves every
  other stream as it was.
\<close>

theorem deregisterAllMembers_refines:
  assumes "redis_reliable R view" "represents K \<rho>"
  shows "outcome view K (deregisterAllMembers (ready R) s)
    (\<lambda>r L. r = Inr () \<and> represents L (spec_clear s \<rho>))"
  using redis_reliable.deregisterAllMembers_ok [OF assms] .

theorem deregisterAllMembers_refines_witness:
  "outcome mem_view Map.empty (deregisterAllMembers (ready mem_redis) ''s'')
    (\<lambda>r L. r = Inr () \<and> represents L (spec_clear ''s'' Map.empty))"
  using deregisterAllMembers_refines [OF mem.redis_reliable_axioms represents_empty, of "''s''"] .

text \<open>
  C4. The time-out scan returns exactly the tasks whose score is due and whose stored activity time
  is too old, each once, and removes exactly those from the registry: a task that was refreshed after
  its score was written is never swept.
\<close>

theorem scanTimeoutTasks_refines:
  assumes "redis_reliable R view" "represents K \<rho>"
  shows "outcome view K (scanTimeoutTasks (ready R) now timeout)
    (\<lambda>r L. \<exists>ts. r = Inr ts \<and> scan_result now timeout (due K (now - timeout)) \<rho> ts
       \<and> represents L (swept now timeout (due K (now - timeout)) \<rho>))"
  using redis_reliable.scanTimeoutTasks_ok [OF assms] .

theorem scanTimeoutTasks_refines_witness:
  "outcome mem_view Map.empty (scanTimeoutTasks (ready mem_redis) demo_now 60000)
    (\<lambda>r L. \<exists>ts. r = Inr ts
       \<and> scan_result demo_now 60000 (due Map.empty (demo_now - 60000)) Map.empty ts
       \<and> represents L (swept demo_now 60000 (due Map.empty (demo_now - 60000)) Map.empty))"
  using scanTimeoutTasks_refines [OF mem.redis_reliable_axioms represents_empty] .

text \<open>
  The global player counter, read back as an unsigned number, is the number of registered
  players.
\<close>

theorem getActivePlayerCount_exact:
  assumes "redis_reliable R view" "represents K \<rho>"
  shows "yields view K (getActivePlayerCount (ready R)) (card (players \<rho>)) K"
  using redis_reliable.getActivePlayerCount_ok [OF assms(1) represents_indexed [OF assms(2)]] .

theorem getActivePlayerCount_exact_witness:
  "yields mem_view Map.empty (getActivePlayerCount (ready mem_redis)) 0 Map.empty"
  using getActivePlayerCount_exact [OF mem.redis_reliable_axioms represents_empty]
  by (simp add: players_def)



section \<open>Isolation under faults\<close>

text \<open>The key a command writes, if any.\<close>

fun cmd_writes :: "redis_cmd \<Rightarrow> string set" where
  "cmd_writes (SETEX k t v) = {k}"
| "cmd_writes (HMSET k fs) = {k}"
| "cmd_writes (HSET k fs) = {k}"
| "cmd_writes (HDEL k f) = {k}"
| "cmd_writes (HINCRBY k f i) = {k}"
| "cmd_writes (SADD k xs) = {k}"
| "cmd_writes (SREM k x) = {k}"
| "cmd_writes (ZADD k m s) = {k}"
| "cmd_writes (ZREM k m) = {k}"
| "cmd_writes (EXPIRE k t) = {k}"
| "cmd_writes (DEL k) = {k}"
| "cmd_writes _ = {}"

lemma apply_cmd_other: "k \<notin> cmd_writes c \<Longrightarrow> apply_cmd c K k = K k"
  by (cases c) (auto split: option.splits)

lemma dereg_cmds_writes:
  "c \<in> set (dereg_cmds i) \<Longrightarrow> k \<in> cmd_writes c \<Longrightarrow> k \<in> entry_keys (streamName i) (clientId i)"
  by (cases "ident_type i") (auto simp: entry_keys_def)

abbreviation unchanged :: "string \<Rightarrow> (rvalue \<times> int option) option \<Rightarrow> keyspace \<Rightarrow> bool" where
  "unchanged k v \<equiv> \<lambda>K. K k = v"

text \<open>
  The frame of a client: an invariant \<open>I\<close> of what is looked at survives every command that writes
  only free keys. Then it survives the operations of the state manager on sessions whose keys are free.
\<close>

locale redis_frame =
  fixes R :: "'w redis" and look :: "'w \<Rightarrow> 's" and I :: "'s \<Rightarrow> bool" and free :: "string \<Rightarrow> bool"
  assumes exec_frame: "\<forall>k \<in> cmd_writes c. free k \<Longrightarrow> keeps look I (redis_exec R c)"
    and pipe_frame: "\<forall>c \<in> set cs. \<forall>k \<in> cmd_writes c. free k \<Longrightarrow> keeps look I (redis_pipe R cs)"
begin

lemma frame_pipeline:
  "\<forall>c \<in> set cs. \<forall>k \<in> cmd_writes c. free k \<Longrightarrow> keeps look I (exec_pipeline (ready R) cs)"
  unfolding exec_pipeline_def by (auto intro!: outcome_intros pipe_frame)

lemma frame_methods [outcome_intros]:
  "keeps look I (hashGetAll (ready R) k)"
  "keeps look I (keyExists (ready R) k)"
  "keeps look I (setMembers (ready R) k)"
  "free k \<Longrightarrow> keeps look I (hashSet (ready R) k fs)"
  "free k \<Longrightarrow> keeps look I (hashIncrBy (ready R) k f i)"
  "free k \<Longrightarrow> keeps look I (setAdd (ready R) k x)"
  "free k \<Longrightarrow> keeps look I (zsetAdd (ready R) k s x)"
  "free k \<Longrightarrow> keeps look I (zsetRem (ready R) k x)"
  "free k \<Longrightarrow> keeps look I (keyExpire (ready R) k t)"
  "free k \<Longrightarrow> keeps look I (keyDel (ready R) k)"
  by (auto simp: hashGetAll_def keyExists_def setMembers_def hashSet_def hashIncrBy_def setAdd_def
      zsetAdd_def zsetRem_def keyExpire_def keyDel_def Let_def intro!: keeps_bind keeps_return exec_frame)

lemma frame_lookups [outcome_intros]:
  "keeps look I (getTaskByKey (ready R) k)"
  "keeps look I (getTask (ready R) s c)"
  "keeps look I (getPublisherTask (ready R) s)"
  by (auto simp: getTask_def getTaskByKey_def getPublisherTask_def intro!: outcome_intros)

lemma frame_deregisterTasksBatch:
  assumes "\<forall>i \<in> set is. \<forall>k \<in> entry_keys (streamName i) (clientId i). free k"
  shows "keeps look I (deregisterTasksBatch (ready R) is)"
  unfolding deregisterTasksBatch_def
  using assms dereg_cmds_writes by (fastforce intro!: outcome_intros frame_pipeline simp del: dereg_cmds.simps)

lemma frame_deregisterTask:
  assumes "\<forall>k \<in> entry_keys s c. free k"
  shows "keeps look I (deregisterTask (ready R) s c)"
  unfolding deregisterTask_def
  using assms by (auto intro!: outcome_intros frame_deregisterTasksBatch simp: entry_keys_def)

lemma frame_registerTask_write:
  assumes "\<forall>k \<in> entry_keys (stream_name t) (client_id t). free k"
  shows "keeps look I (registerTask_write (ready R) now t)"
proof -
  note d = frame_deregisterTask [OF assms]
  have "keeps look I (registerPublisherIndices (ready R) t)" "keeps look I (registerPlayerIndices (ready R) t)"
    using assms unfolding registerPublisherIndices_def registerPlayerIndices_def
    by (auto intro!: outcome_intros frame_pipeline simp: entry_keys_def)
  then show ?thesis
    using assms unfolding registerTask_write_def Let_def
    by (auto intro!: outcome_intros d simp: entry_keys_def)
qed

lemma frame_registerTask:
  assumes "\<forall>k \<in> entry_keys (stream_name t) (client_id t). free k"
  shows "keeps look I (registerTask (ready R) now t)"
  unfolding registerTask_def
  by (auto intro!: outcome_intros frame_registerTask_write [OF assms] frame_deregisterTask [OF assms])

lemma frame_deregisterAllMembers:
  assumes "\<And>s c. \<forall>k \<in> entry_keys s c. free k"
  shows "keeps look I (deregisterAllMembers (ready R) s)"
proof -
  have "keeps look I (member_targets (ready R) s cs)" for cs
    by (induction cs) (auto intro!: outcome_intros)
  moreover have "free (memberKey s)" using assms [of s "''''"] by (simp add: entry_keys_def)
  ultimately show ?thesis
    unfolding deregisterAllMembers_def getStreamClientIds_def
    by (auto intro!: outcome_intros frame_deregisterTasksBatch assms)
qed

end

sublocale redis_server \<subseteq> one_key: redis_frame R view "unchanged k v" "\<lambda>k'. k' \<noteq> k" for k v
proof
  show "keeps view (unchanged k v) (redis_exec R c)" if "\<forall>k' \<in> cmd_writes c. k' \<noteq> k" for c
    using that by (intro keeps_exec) (auto simp: apply_cmd_other)
  show "keeps view (unchanged k v) (redis_pipe R cs)" if "\<forall>c \<in> set cs. \<forall>k' \<in> cmd_writes c. k' \<noteq> k" for cs
  proof (rule keeps_pipe)
    fix c K assume "c \<in> set cs" "K k = v"
    moreover from this(1) that have "k \<notin> cmd_writes c" by blast
    ultimately show "apply_cmd c K k = v" by (simp add: apply_cmd_other)
  qed
qed

context redis_server
begin

lemma isolated_registerTask:
  "k \<notin> entry_keys (stream_name t) (client_id t) \<Longrightarrow> keeps view (unchanged k v) (registerTask (ready R) now t)"
  by (rule one_key.frame_registerTask) auto

end

text \<open>
  C13. Isolation under faults: whatever commands fail, and whether or not the failing ones took
  effect, a registration of one client never changes a key other than its own task key, its stream's
  publisher and member keys and the three global indices; in particular no other stream's publisher.
\<close>

theorem registerTask_isolated:
  assumes "redis_server R view" "k \<notin> entry_keys (stream_name t) (client_id t)"
  shows "keeps view (\<lambda>K. K k = v) (registerTask (ready R) now t)"
  by (rule redis_server.isolated_registerTask [OF assms])

theorem registerTask_isolated_witness:
  "keeps mem_view (\<lambda>K. K (buildPublisherKey ''v/live/other'') = None)
     (registerTask (ready mem_redis) demo_now demo_pub)"
proof -
  have "buildPublisherKey ''v/live/other'' \<notin> entry_keys (stream_name demo_pub) (client_id demo_pub)"
    by (simp add: entry_keys_def)
  from registerTask_isolated [OF mem.redis_server_axioms this] show ?thesis .
qed

section \<open>Heartbeat\<close>

lemma to_ms_of_ms [simp]: "0 \<le> ms \<Longrightarrow> to_ms (ms * 1000000) = ms"
  by (simp add: duration_cast_def)

definition touched :: "int \<Rightarrow> StreamTask \<Rightarrow> StreamTask" where
  "touched now t = t\<lparr>last_active_time := now * 1000000\<rparr>"

lemma serializeTask_touched:
  assumes "0 \<le> now"
  shows "map_of (serializeTask (touched now t)) =
    (map_of (serializeTask t))(''last_active_time_ms'' \<mapsto> to_string now)"
  using assms by (simp add: serializeTask_def touched_def fun_eq_iff)

lemma reasonable_nonneg: "reasonable_ms now \<Longrightarrow> 0 \<le> now"
  by (simp add: reasonable_ms_def MIN_REASONABLE_MS_def)

lemma storable_touched: "storable t \<Longrightarrow> reasonable_ms now \<Longrightarrow> storable (touched now t)"
  using reasonable_nonneg [of now] by (simp add: storable_def touched_def)

lemma stored_touched: "stored t = t \<Longrightarrow> reasonable_ms now \<Longrightarrow> stored (touched now t) = touched now t"
  using reasonable_nonneg [of now] by (cases t) (auto simp: stored_def touched_def split: if_splits)

context redis_reliable
begin

lemma touchTask_ok:
  assumes "hash_at K (buildTaskKey s c) = Some m" "zset_at K buildTaskTimestampZSetKey = Some z"
  shows "outcome view K (touchTask (ready R) now s c)
    (\<lambda>r L. r = Inr True
       \<and> hash_at L (buildTaskKey s c) = Some (m(''last_active_time_ms'' \<mapsto> to_string now))
       \<and> ttl_at L (buildTaskKey s c) = Some TASK_TTL_SEC
       \<and> zset_at L buildTaskTimestampZSetKey = Some (z(buildTaskKey s c \<mapsto> now)))"
  unfolding touchTask_def Let_def
  by (rule outcome_bindE [OF exec_pipeline_ok])
    (use assms in \<open>auto simp: bool_at_def bool_reply_def TASK_TTL_SEC_def put_hash_def hash_at_def
       put_zset_def zset_at_def ttl_at_def\<close>)

end

text \<open>
  C21. A heartbeat keeps a task alive: touching a registered task returns true, and the task then
  reads back with the new activity time, its time to live renewed and its score moved.
\<close>

theorem touchTask_refreshes:
  assumes "redis_reliable R view" "represents K \<rho>" "\<rho> (s, c) = Some t" "reasonable_ms now"
  shows "outcome view K
    (bindE (touchTask (ready R) now s c) (\<lambda>b. do { r \<leftarrow> getTask (ready R) s c; ok (b, r) }))
    (\<lambda>r L. r = Inr (True, Some (t\<lparr>last_active_time := now * 1000000\<rparr>))
       \<and> ttl_at L (buildTaskKey s c) = Some TASK_TTL_SEC
       \<and> (\<exists>z. zset_at L buildTaskTimestampZSetKey = Some z \<and> z (buildTaskKey s c) = Some now))"
proof -
  have idx: "indexed K \<rho>" using assms(2) by (rule represents_indexed)
  note t = valid_registryD [OF indexed_valid [OF idx] assms(3)]
  obtain z where z: "zset_at K buildTaskTimestampZSetKey = Some z"
    by (rule represents_zset [OF assms(2)])
  note m = indexed_task [OF idx assms(3)]
  note n = reasonable_nonneg [OF assms(4)]
  have load: "yields view L (getTask (ready R) s c) (Some (touched now t)) L"
    if "hash_at L (buildTaskKey s c) =
      Some ((map_of (serializeTask t))(''last_active_time_ms'' \<mapsto> to_string now))" for L
    using redis_reliable.load_task [OF assms(1), of L "buildTaskKey s c" "touched now t"] that
      serializeTask_touched [OF n, of t] storable_touched [OF t(4) assms(4)]
      stored_touched [OF t(5) assms(4)]
    by (simp add: getTask_def)
  show ?thesis
    by (rule outcome_bindE [OF redis_reliable.touchTask_ok [OF assms(1) m z]])
      (auto simp: touched_def [symmetric] intro!: yields_bind [OF load])
qed

theorem touchTask_refreshes_witness:
  "\<exists>K \<rho>. represents K \<rho> \<and> \<rho> (''v/live/s1'', ''c1'') = Some (stored demo_pub) \<and>
    outcome mem_view K
      (bindE (touchTask (ready mem_redis) demo_now ''v/live/s1'' ''c1'')
        (\<lambda>b. do { r \<leftarrow> getTask (ready mem_redis) ''v/live/s1'' ''c1''; ok (b, r) }))
      (\<lambda>r L. r = Inr (True, Some ((stored demo_pub)\<lparr>last_active_time := demo_now * 1000000\<rparr>))
         \<and> ttl_at L (buildTaskKey ''v/live/s1'' ''c1'') = Some TASK_TTL_SEC
         \<and> (\<exists>z. zset_at L buildTaskTimestampZSetKey = Some z
              \<and> z (buildTaskKey ''v/live/s1'' ''c1'') = Some demo_now))"
proof -
  have "outcome mem_view Map.empty (registerTask (ready mem_redis) demo_now demo_pub)
    (\<lambda>r L. represents L [(''v/live/s1'', ''c1'') \<mapsto> stored demo_pub])"
    using mem.registerTask_ok [OF represents_empty demo_registrable(1), of demo_now]
    by (auto simp: registered_def spec_register_def elim!: outcome_mono)
  then obtain K where K: "represents K [(''v/live/s1'', ''c1'') \<mapsto> stored demo_pub]"
    using mem_view_empty unfolding outcome_def by blast
  from touchTask_refreshes [OF mem.redis_reliable_axioms K, of "''v/live/s1''" "''c1''" "stored demo_pub" demo_now]
  show ?thesis using K by (intro exI [of _ K] exI) (rule conjI [OF K], simp)
qed

text \<open>
  A heartbeat for a client that is not registered also returns true, and it leaves a task hash with
  the activity time as its only field: the branch that removes an orphaned hash is never taken,
  since the hash is written before its time to live is set.
\<close>

lemma touchTask_orphan:
  assumes "redis_reliable R view" "represents K \<rho>" "colon_free c" "\<rho> (s, c) = None"
  shows "outcome view K (touchTask (ready R) now s c)
    (\<lambda>r L. r = Inr True \<and> hash_at L (buildTaskKey s c) = Some [''last_active_time_ms'' \<mapsto> to_string now])"
proof -
  have idx: "indexed K \<rho>" using assms(2) by (rule represents_indexed)
  have "K (buildTaskKey s c) = None" by (rule indexed_no_task [OF idx assms(3,4)])
  then have m: "hash_at K (buildTaskKey s c) = Some Map.empty" by (rule at_absent)
  obtain z where z: "zset_at K buildTaskTimestampZSetKey = Some z"
    by (rule represents_zset [OF assms(2)])
  show ?thesis
    by (rule outcome_mono [OF redis_reliable.touchTask_ok [OF assms(1) m z]]) simp
qed

end
