(* ===== verification/Publisher_Race.thy ===== *)
theory Publisher_Race
  imports Registry_Properties
begin

text \<open>
  Two publishers that register for the same stream at the same time. The functional model of
  \<open>registerTask\<close> runs a registration as one action; here it is cut where the source reads the
  publisher for the last time before it writes, and the two parts of two registrations are interleaved.
\<close>

section \<open>A registration in two parts\<close>

text \<open>Up to the second look at the publisher key, in \<open>registerPublisherIndices\<close>, and from the pipeline on.\<close>

definition publisher_rollback :: "'w CacheManager \<Rightarrow> StreamTask \<Rightarrow> ('w, bool) call" where
  "publisher_rollback cm task =
     bindE (deregisterTask cm (stream_name task) (client_id task)) (\<lambda>_. ok False)"

definition publisher_write_check :: "'w CacheManager \<Rightarrow> StreamTask \<Rightarrow> ('w, bool) call" where
  "publisher_write_check cm task =
     (let task_key = buildTaskKey (stream_name task) (client_id task) in do {
        written \<leftarrow> hashSet cm task_key (serializeTask task);
        if \<not> written then ok False
        else do {
          expires \<leftarrow> keyExpire cm task_key TASK_TTL_SEC;
          if \<not> expires then do { _ \<leftarrow> keyDel cm task_key; ok False }
          else do {
            current_task_opt \<leftarrow> getTaskByKey cm (buildPublisherKey (stream_name task));
            if (case current_task_opt of Some cur \<Rightarrow> client_id cur \<noteq> client_id task | None \<Rightarrow> False)
            then publisher_rollback cm task
            else ok True
          }
        }
      })"

definition publisher_check :: "'w CacheManager \<Rightarrow> StreamTask \<Rightarrow> ('w, bool) call" where
  "publisher_check cm task = do {
     existing_pub \<leftarrow> getPublisherTask cm (stream_name task);
     case existing_pub of
       Some p \<Rightarrow>
         if client_id p \<noteq> client_id task then ok False
         else bindE (deregisterTask cm (stream_name task) (client_id task))
                (\<lambda>_. publisher_write_check cm task)
     | None \<Rightarrow> publisher_write_check cm task
   }"

definition publisher_commit :: "'w CacheManager \<Rightarrow> int \<Rightarrow> StreamTask \<Rightarrow> ('w, bool) call" where
  "publisher_commit cm now_ms task =
     bindE (exec_pipeline cm
         [HSET (buildPublisherKey (stream_name task)) (serializeTask task),
          SADD (memberKey (stream_name task)) [client_id task],
          SADD buildActivePublishersKey [stream_name task]])
       (\<lambda>res. if \<not> (case res of Inl _ \<Rightarrow> False | Inr _ \<Rightarrow> True) then publisher_rollback cm task
          else if now_ms < MIN_REASONABLE_MS \<or> now_ms > MAX_REASONABLE_MS then publisher_rollback cm task
          else do {
            z \<leftarrow> zsetAdd cm buildTaskTimestampZSetKey now_ms
                  (buildTaskKey (stream_name task) (client_id task));
            if \<not> z then publisher_rollback cm task else ok True
          })"

definition go_on :: "('w, bool) call \<Rightarrow> bool \<Rightarrow> ('w, bool) call" where
  "go_on rest b = (if b then rest else ok False)"

text \<open>The interleaving in which both registrations have looked before either writes.\<close>

definition racing_publishers ::
  "'w CacheManager \<Rightarrow> int \<Rightarrow> StreamTask \<Rightarrow> StreamTask \<Rightarrow> ('w, bool \<times> bool) call" where
  "racing_publishers cm now_ms t u =
     bindE (publisher_check cm t) (\<lambda>a.
     bindE (publisher_check cm u) (\<lambda>b.
     bindE (go_on (publisher_commit cm now_ms t) a) (\<lambda>r.
     bindE (go_on (publisher_commit cm now_ms u) b) (\<lambda>q. ok (r, q)))))"

section \<open>The parts make up the registration\<close>

lemma bindE_ok [simp]: "bindE (ok x) f = f x"
  by (simp add: bindE_def)

lemma bindE_assoc: "bindE (bindE m f) g = bindE m (\<lambda>x. bindE (f x) g)"
  by (auto simp: bindE_def State_Monad.bind_def split: prod.splits sum.splits)

lemma bindE_bind: "bindE (State_Monad.bind m f) g = State_Monad.bind m (\<lambda>x. bindE (f x) g)"
  by (simp add: bindE_def)

lemma bindE_if: "bindE (if b then m else m') f = (if b then bindE m f else bindE m' f)"
  by simp

lemma bindE_option:
  "bindE (case x of None \<Rightarrow> m | Some a \<Rightarrow> h a) f = (case x of None \<Rightarrow> bindE m f | Some a \<Rightarrow> bindE (h a) f)"
  by (cases x) simp_all

lemma rollback_go_on: "bindE (publisher_rollback cm t) (go_on rest) = publisher_rollback cm t"
  by (simp add: publisher_rollback_def bindE_assoc go_on_def)

lemmas race_defs = publisher_write_check_def publisher_commit_def registerTask_write_def registerPublisherIndices_def

lemma write_parts:
  assumes "task_type t = PUBLISHER"
  shows "registerTask_write cm now t = bindE (publisher_write_check cm t) (go_on (publisher_commit cm now t))"
  using assms
  by (simp add: race_defs Let_def bindE_bind bindE_assoc bindE_if rollback_go_on go_on_def
      publisher_rollback_def [symmetric] cong: if_cong)

lemma registerTask_parts:
  assumes "task_type t = PUBLISHER"
  shows "registerTask cm now t = bindE (publisher_check cm t) (go_on (publisher_commit cm now t))"
  using assms
  by (simp add: registerTask_def publisher_check_def write_parts bindE_bind bindE_option bindE_if bindE_assoc
      go_on_def [of _ False] cong: if_cong option.case_cong)

section \<open>Both registrations succeed\<close>

definition publisher_written :: "StreamTask \<Rightarrow> keyspace \<Rightarrow> keyspace" where
  "publisher_written t K = fold apply_cmd
     [HSET (buildPublisherKey (stream_name t)) (serializeTask t), SADD (memberKey (stream_name t)) [client_id t],
      SADD buildActivePublishersKey [stream_name t]] K"

lemma publisher_written_frame:
  assumes "k \<noteq> buildPublisherKey (stream_name t)" "k \<noteq> memberKey (stream_name t)" "k \<noteq> buildActivePublishersKey"
  shows "publisher_written t K k = K k"
  using assms
  by (simp add: publisher_written_def put_hash_def put_set_def split: option.splits)

lemma publisher_written_owner:
  assumes "hash_at K (buildPublisherKey (stream_name t)) = Some m"
  shows "hash_at (publisher_written t K) (buildPublisherKey (stream_name t)) = Some (m ++ map_of (serializeTask t))"
proof -
  let ?k = "buildPublisherKey (stream_name t)"
  let ?L = "apply_cmd (HSET ?k (serializeTask t)) K"
  have "publisher_written t K ?k = ?L ?k"
    by (simp add: publisher_written_def put_set_def split: option.splits)
  moreover have "map_of (serializeTask t) \<noteq> Map.empty" by (simp only: map_of_eq_empty_iff) simp
  ultimately show ?thesis using assms by (simp add: hash_at_def [of "publisher_written t K"] put_hash_def)
qed

context redis_reliable
begin

lemma publisher_check_free:
  assumes "K (buildPublisherKey (stream_name t)) = None" "K (buildTaskKey (stream_name t) (client_id t)) = None"
  shows "yields view K (publisher_check (ready R) t) (Inr True)
    (K(buildTaskKey (stream_name t) (client_id t) \<mapsto> (RHash (map_of (serializeTask t)), Some TASK_TTL_SEC)))"
proof -
  let ?tk = "buildTaskKey (stream_name t) (client_id t)"
  let ?K1 = "K(?tk \<mapsto> (RHash (map_of (serializeTask t)), None))"
  let ?K2 = "K(?tk \<mapsto> (RHash (map_of (serializeTask t)), Some TASK_TTL_SEC))"
  have look: "yields view K (getPublisherTask (ready R) (stream_name t)) None K"
    unfolding getPublisherTask_def using at_absent(1) [of K, OF assms(1)]
    by (auto intro!: outcome_bind [OF hashGetAll_ok])
  have ttl: "yields view ?K1 (keyExpire (ready R) ?tk TASK_TTL_SEC) True ?K2"
    using keyExpire_ok [of ?K1 ?tk "RHash (map_of (serializeTask t))" None TASK_TTL_SEC] by (simp add: TASK_TTL_SEC_def)
  have again: "yields view ?K2 (getTaskByKey (ready R) (buildPublisherKey (stream_name t))) None ?K2"
    by (rule load_absent) (simp add: assms(1))
  have "yields view K (publisher_write_check (ready R) t) (Inr True) ?K2"
    unfolding publisher_write_check_def Let_def
    by (rule yields_bind [OF write_hash_ok [of K, OF assms(2)]], simp only: not_True_eq_False if_False,
        rule yields_bind [OF ttl], simp only: not_True_eq_False if_False, rule yields_bind [OF again]) auto
  then show ?thesis
    unfolding publisher_check_def by (intro yields_bind [OF look]) simp
qed

lemma publisher_commit_ok:
  assumes "zset_at K buildTaskTimestampZSetKey = Some z" "reasonable_ms now"
  shows "yields view K (publisher_commit (ready R) now t) (Inr True)
    (put_zset buildTaskTimestampZSetKey (z(buildTaskKey (stream_name t) (client_id t) \<mapsto> now)) (publisher_written t K))"
proof -
  have pipe: "outcome view K (exec_pipeline (ready R)
       [HSET (buildPublisherKey (stream_name t)) (serializeTask t), SADD (memberKey (stream_name t)) [client_id t],
        SADD buildActivePublishersKey [stream_name t]])
      (\<lambda>res L. \<exists>reps. res = Inr (Inr reps) \<and> L = publisher_written t K)"
    unfolding publisher_written_def by (rule outcome_mono [OF exec_pipeline_ok]) blast
  have "zset_at (publisher_written t K) buildTaskTimestampZSetKey = Some z"
    using assms(1) by (simp add: zset_at_def publisher_written_frame)
  note add = zsetAdd_ok [OF this, of now "buildTaskKey (stream_name t) (client_id t)"]
  show ?thesis
    unfolding publisher_commit_def using assms(2)
    by (auto intro!: outcome_bindE [OF pipe] yields_bind [OF add] outcome_return simp: reasonable_ms_def)
qed

lemma racing_publishers_ok:
  assumes rep: "represents K \<rho>" and reg: "registrable \<rho> t" "registrable \<rho> u"
    and pub: "task_type t = PUBLISHER" "task_type u = PUBLISHER"
    and same: "stream_name u = stream_name t" "client_id u \<noteq> client_id t"
    and free: "\<nexists>v. publishes \<rho> (stream_name t) v" and now: "reasonable_ms now"
  shows "outcome view K (racing_publishers (ready R) now t u)
    (\<lambda>r L. r = Inr (True, True)
       \<and> hash_at L (buildTaskKey (stream_name t) (client_id t)) = Some (map_of (serializeTask t))
       \<and> hash_at L (buildTaskKey (stream_name t) (client_id u)) = Some (map_of (serializeTask u))
       \<and> (\<exists>m. hash_at L (buildPublisherKey (stream_name t)) = Some m \<and> m ''client_id'' = Some (client_id u)))"
proof -
  let ?s = "stream_name t" and ?Z = buildTaskTimestampZSetKey
  let ?tk = "buildTaskKey ?s (client_id t)" and ?uk = "buildTaskKey ?s (client_id u)"
  have idx: "indexed K \<rho>" using rep by (simp add: represents_def)
  have c: "colon_free (client_id t)" "colon_free (client_id u)" using reg by (simp_all add: registrable_def)
  have ne: "?tk \<noteq> ?uk" using c same(2) by (auto simp: buildTaskKey_inject)
  have new: "\<rho> (?s, client_id t) = None" "\<rho> (?s, client_id u) = None"
    using registrable_new [OF indexed_valid [OF idx] reg(1) pub(1) free]
      registrable_new [OF indexed_valid [OF idx] reg(2) pub(2), unfolded same(1), OF free] by simp_all
  note absent = indexed_publisher(2) [OF idx free] indexed_no_task [OF idx c(1) new(1)]
    indexed_no_task [OF idx c(2) new(2)]
  obtain z where z: "zset_at K ?Z = Some z" by (rule represents_zset [OF rep])
  define K1 where "K1 = K(?tk \<mapsto> (RHash (map_of (serializeTask t)), Some TASK_TTL_SEC))"
  define K2 where "K2 = K1(?uk \<mapsto> (RHash (map_of (serializeTask u)), Some TASK_TTL_SEC))"
  define K3 where "K3 = put_zset ?Z (z(?tk \<mapsto> now)) (publisher_written t K2)"
  define K4 where "K4 = put_zset ?Z (z(?tk \<mapsto> now, ?uk \<mapsto> now)) (publisher_written u K3)"
  have check_t: "yields view K (publisher_check (ready R) t) (Inr True) K1"
    unfolding K1_def by (rule publisher_check_free) (use absent in auto)
  have check_u: "yields view K1 (publisher_check (ready R) u) (Inr True) K2"
    using publisher_check_free [of K1 u] absent ne unfolding K2_def same(1) by (simp add: K1_def)
  have "zset_at K2 ?Z = Some z" using z by (simp add: K2_def K1_def zset_at_def)
  from publisher_commit_ok [OF this now, of t]
  have commit_t: "yields view K2 (publisher_commit (ready R) now t) (Inr True) K3" by (simp add: K3_def)
  have "zset_at K3 ?Z = Some (z(?tk \<mapsto> now))" by (simp add: K3_def)
  from publisher_commit_ok [OF this now, of u]
  have commit_u: "yields view K3 (publisher_commit (ready R) now u) (Inr True) K4" by (simp add: K4_def same(1))
  have kept: "K4 k = K2 k" if "k \<in> {?tk, ?uk}" for k
    using that by (auto simp: K4_def K3_def put_zset_def publisher_written_frame same(1))
  have tasks: "hash_at K4 ?tk = Some (map_of (serializeTask t))" "hash_at K4 ?uk = Some (map_of (serializeTask u))"
    using kept ne by (auto simp: hash_at_def K2_def K1_def)
  have "hash_at K2 (buildPublisherKey ?s) = Some Map.empty" using absent(1) by (simp add: K2_def K1_def hash_at_def)
  from publisher_written_owner [OF this]
  have "hash_at K3 (buildPublisherKey (stream_name u)) = Some (map_of (serializeTask t))" by (simp add: K3_def same(1))
  from publisher_written_owner [OF this]
  have owner: "\<exists>m. hash_at K4 (buildPublisherKey ?s) = Some m \<and> m ''client_id'' = Some (client_id u)"
    by (simp add: K4_def same(1))
  show ?thesis
    unfolding racing_publishers_def
    by (rule yields_bindE [OF check_t], rule yields_bindE [OF check_u], simp only: go_on_def if_True,
        rule yields_bindE [OF commit_t], rule yields_bindE [OF commit_u], rule outcome_return)
      (simp add: tasks owner)
qed

end

text \<open>
  C16. The check for another publisher is not atomic with the write. A publisher's registration is its
  two parts one after the other; but when two clients register for a stream that has no publisher and
  both have passed their last check before either writes, both calls return true, the tasks of both
  are stored, and the publisher key names the second: the first has been granted a stream that it does
  not own.
\<close>

theorem racing_publishers_both_granted:
  assumes "redis_reliable R view" "represents K \<rho>" "registrable \<rho> t" "registrable \<rho> u"
    and "task_type t = PUBLISHER" "task_type u = PUBLISHER"
    and "stream_name u = stream_name t" "client_id u \<noteq> client_id t"
    and "\<nexists>v. publishes \<rho> (stream_name t) v" "reasonable_ms now"
  shows "registerTask (ready R) now t = bindE (publisher_check (ready R) t) (go_on (publisher_commit (ready R) now t))
    \<and> registerTask (ready R) now u = bindE (publisher_check (ready R) u) (go_on (publisher_commit (ready R) now u))
    \<and> outcome view K (racing_publishers (ready R) now t u)
    (\<lambda>r L. r = Inr (True, True)
       \<and> hash_at L (buildTaskKey (stream_name t) (client_id t)) = Some (map_of (serializeTask t))
       \<and> hash_at L (buildTaskKey (stream_name t) (client_id u)) = Some (map_of (serializeTask u))
       \<and> (\<exists>m. hash_at L (buildPublisherKey (stream_name t)) = Some m \<and> m ''client_id'' = Some (client_id u)))"
  using redis_reliable.racing_publishers_ok [OF assms] registerTask_parts assms(5,6) by blast

definition demo_rival :: StreamTask where
  "demo_rival = demo_pub\<lparr>client_id := ''c2''\<rparr>"

theorem racing_publishers_both_granted_witness:
  "outcome mem_view Map.empty (racing_publishers (ready mem_redis) demo_now demo_pub demo_rival)
    (\<lambda>r L. r = Inr (True, True)
       \<and> hash_at L (buildTaskKey ''v/live/s1'' ''c1'') = Some (map_of (serializeTask demo_pub))
       \<and> hash_at L (buildTaskKey ''v/live/s1'' ''c2'') = Some (map_of (serializeTask demo_rival))
       \<and> (\<exists>m. hash_at L (buildPublisherKey ''v/live/s1'') = Some m \<and> m ''client_id'' = Some ''c2''))"
proof -
  have r: "registrable Map.empty demo_rival"
    using demo_storable(1)
    by (simp add: registrable_def demo_rival_def colon_free_def players_def storable_def)
  have f: "task_type demo_rival = PUBLISHER" "stream_name demo_rival = stream_name demo_pub"
    "client_id demo_rival = ''c2''" by (simp_all add: demo_rival_def)
  from racing_publishers_both_granted [OF mem.redis_reliable_axioms represents_empty demo_registrable(1) r
      demo_fields(3) f(1,2) _ _ demo_reasonable]
  show ?thesis by (simp add: f publishes_def)
qed

end
