(* ===== verification/Json_Api.thy ===== *)
theory Json_Api
  imports Complex_Main Sg_Prelude "HOL-Library.List_Lexorder" "HOL-Library.Char_ord"
begin

text \<open>
  JSON values as the program sees them through nlohmann/json. Parsing and printing belong to the
  library and are a parameter, the record \<open>json_lib\<close>: \<open>json_parse\<close> is \<^term>\<open>None\<close> when parsing
  throws, which is an \<open>out_of_range\<close> exception (a number too large) where \<open>json_overflow\<close> holds and
  a \<open>parse_error\<close> elsewhere; \<open>json_dump\<close>, and \<open>json_dump2\<close> for the indented form, are
  \<^term>\<open>None\<close> when printing throws (text that is not UTF-8).
  What the program relies on is \<open>json_roundtrip\<close>: a well-formed value that was printed parses back
  to itself. The accessors are the documented ones: \<^term>\<open>None\<close> stands for a \<open>json::exception\<close>.
\<close>

datatype json =
    JNull
  | JBool bool
  | JInt int
  | JFloat rat
  | JStr string
  | JArr "json list"
  | JObj "(string \<times> json) list"

text \<open>Objects are ordered maps: their keys are distinct and ascending.\<close>

fun json_wf :: "json \<Rightarrow> bool" where
  "json_wf (JArr js) = list_all json_wf js"
| "json_wf (JObj ps) = (sorted_wrt (<) (map fst ps) \<and> list_all (\<lambda>p. json_wf (snd p)) ps)"
| "json_wf _ = True"

record json_lib =
  json_parse :: "string \<Rightarrow> json option"
  json_dump :: "json \<Rightarrow> string option"
  json_dump2 :: "json \<Rightarrow> string option"
  json_overflow :: "string \<Rightarrow> bool"

definition json_roundtrip :: "json_lib \<Rightarrow> bool" where
  "json_roundtrip J \<longleftrightarrow> (\<forall>j s. json_wf j \<longrightarrow> json_dump J j = Some s \<longrightarrow> json_parse J s = Some j)"

section \<open>Accessors\<close>

definition json_find :: "json \<Rightarrow> string \<Rightarrow> json option" where
  "json_find j k = (case j of JObj ps \<Rightarrow> map_of ps k | _ \<Rightarrow> None)"

definition json_get_string :: "json \<Rightarrow> string option" where
  "json_get_string j = (case j of JStr s \<Rightarrow> Some s | _ \<Rightarrow> None)"

definition json_get_bool :: "json \<Rightarrow> bool option" where
  "json_get_bool j = (case j of JBool b \<Rightarrow> Some b | _ \<Rightarrow> None)"

text \<open>An integer read from a JSON number; a floating-point number is cut to an integer.\<close>

definition json_get_int :: "json \<Rightarrow> int option" where
  "json_get_int j =
     (case j of
        JInt i \<Rightarrow> Some i
      | JFloat x \<Rightarrow> Some (if x < 0 then \<lceil>x\<rceil> else \<lfloor>x\<rfloor>)
      | _ \<Rightarrow> None)"

text \<open>\<open>j.value(key, default)\<close>: throws on a value that is no object and on a field of another type.\<close>

definition json_value :: "(json \<Rightarrow> 'a option) \<Rightarrow> json \<Rightarrow> string \<Rightarrow> 'a \<Rightarrow> 'a option" where
  "json_value get j k dflt =
     (case j of
        JObj ps \<Rightarrow> (case map_of ps k of None \<Rightarrow> Some dflt | Some v \<Rightarrow> get v)
      | _ \<Rightarrow> None)"

text \<open>\<open>j.items()\<close>: the fields of an object, the elements of an array under their index, and any other
  value but null under the empty key.\<close>

fun json_items :: "json \<Rightarrow> (string \<times> json) list" where
  "json_items (JObj ps) = ps"
| "json_items (JArr js) = zip (map (\<lambda>i. to_string (int i)) [0..<length js]) js"
| "json_items JNull = []"
| "json_items j = [('''', j)]"

fun json_string_map :: "(string \<times> json) list \<Rightarrow> (string \<times> string) list option" where
  "json_string_map [] = Some []"
| "json_string_map ((k, v) # ps) =
     (case (v, json_string_map ps) of
        (JStr s, Some m) \<Rightarrow> Some ((k, s) # m)
      | _ \<Rightarrow> None)"

definition jstrings :: "(string \<times> string) list \<Rightarrow> json" where
  "jstrings m = JObj (map (\<lambda>(k, v). (k, JStr v)) m)"

lemma json_string_map_strings [simp]: "json_string_map (map (\<lambda>(k, v). (k, JStr v)) m) = Some m"
  by (induction m) auto

lemma json_wf_strings [simp]: "json_wf (jstrings m) \<longleftrightarrow> sorted_wrt (<) (map fst m)"
  by (auto simp: jstrings_def comp_def case_prod_beta list_all_iff)

section \<open>A concrete library for the examples\<close>

text \<open>
  A library that prints the values of a finite table: it satisfies the round trip when the table
  gives different texts to different values.
\<close>

definition table_json :: "(json \<times> string) list \<Rightarrow> json_lib" where
  "table_json tab =
     \<lparr>json_parse = map_of (map (\<lambda>(j, s). (s, j)) tab), json_dump = map_of tab,
      json_dump2 = map_of tab, json_overflow = (\<lambda>_. False)\<rparr>"

lemma table_json_roundtrip:
  assumes "distinct (map snd tab)"
  shows "json_roundtrip (table_json tab)"
proof -
  have "map_of (map (\<lambda>(j, s). (s, j)) tab) s = Some j" if "map_of tab j = Some s" for j s
    using map_of_SomeD [OF that] assms
    by (intro map_of_is_SomeI) (auto simp: comp_def case_prod_beta intro!: image_eqI [of _ _ "(j, s)"])
  then show ?thesis by (simp add: json_roundtrip_def table_json_def)
qed

end
