(* ===== verification/Zlm_Hook.thy ===== *)
theory Zlm_Hook
  imports Json_Api Stream_Task
begin

text \<open>
  The webhook protocol of the media server (\<open>include/ZlmHookCommon.h\<close>,
  \<open>src/util/ZlmHookCommon.cpp\<close>): the request with its actions and protocols, its decoding from JSON,
  the query-string parser, and the decisions and responses. The parameters of a request, a
  \<open>std::map\<close>, are a map from strings to strings.
\<close>

section \<open>Data\<close>

datatype HookAction =
  Publish | PublishDone | Play | PlayDone | StreamNoneReader | StreamNotFound | UnknownAction

datatype ZlmHookResult =
    ZLM_SUCCESS | ZLM_AUTH_DENIED | ZLM_INVALID_FORMAT | ZLM_UNSUPPORTED_ACTION | ZLM_INTERNAL_ERROR
  | ZLM_TIMEOUT | ZLM_RESOURCE_NOT_READY

record ZlmHookRequest =
  hook_action :: HookAction
  hook_protocol :: StreamProtocol
  hook_app :: string
  hook_stream :: string
  hook_vhost :: string
  hook_client_id :: string
  hook_ip :: string
  hook_params :: "string \<rightharpoonup> string"

definition stream_key :: "ZlmHookRequest \<Rightarrow> string" where
  "stream_key req = hook_vhost req @ ''/'' @ hook_app req @ ''/'' @ hook_stream req"

definition get_token :: "ZlmHookRequest \<Rightarrow> string" where
  "get_token req = (case hook_params req ''token'' of Some t \<Rightarrow> t | None \<Rightarrow> '''')"

record ZlmHookResponse =
  zlm_code :: ZlmHookResult
  zlm_message :: string

datatype Outcome = Allow | Deny | Defer

record HookDecision =
  decision :: Outcome
  reason :: string

definition allow :: HookDecision where
  "allow = \<lparr>decision = Allow, reason = ''success''\<rparr>"

definition deny :: "string \<Rightarrow> HookDecision" where
  "deny r = \<lparr>decision = Deny, reason = r\<rparr>"

definition to_response :: "HookDecision \<Rightarrow> ZlmHookResponse" where
  "to_response d =
     (if decision d = Allow then \<lparr>zlm_code = ZLM_SUCCESS, zlm_message = ''success''\<rparr>
      else if decision d = Defer then \<lparr>zlm_code = ZLM_TIMEOUT, zlm_message = ''processing''\<rparr>
      else if has_substr ''auth'' (reason d) \<or> has_substr ''Identity'' (reason d)
        \<or> has_substr ''not found'' (reason d)
      then \<lparr>zlm_code = ZLM_AUTH_DENIED, zlm_message = reason d\<rparr>
      else \<lparr>zlm_code = ZLM_INTERNAL_ERROR, zlm_message = reason d\<rparr>)"

section \<open>Decoding\<close>

definition parse_action :: "string \<Rightarrow> HookAction" where
  "parse_action s =
     (if s = ''on_publish'' then Publish
      else if s = ''on_play'' then Play
      else if s = ''on_publish_done'' then PublishDone
      else if s = ''on_play_done'' then PlayDone
      else if s = ''on_stream_none_reader'' then StreamNoneReader
      else UnknownAction)"

definition parse_protocol :: "string \<Rightarrow> StreamProtocol" where
  "parse_protocol s =
     (if s = ''rtmp'' then RTMP
      else if s = ''http-flv'' then HTTP_FLV
      else if s = ''hls'' then HLS
      else if s = ''rtsp'' then RTSP
      else if s = ''webrtc'' then WebRTC
      else Unknown)"

text \<open>\<open>s.find(c, pos)\<close> and \<open>s.substr(pos, n)\<close> for a position inside the string.\<close>

definition find_from :: "char \<Rightarrow> string \<Rightarrow> nat \<Rightarrow> nat option" where
  "find_from c s pos =
     (let n = length (before c (drop pos s)) in if pos + n < length s then Some (pos + n) else None)"

definition substr :: "string \<Rightarrow> nat \<Rightarrow> nat \<Rightarrow> string" where
  "substr s pos n = take n (drop pos s)"

text \<open>
  The loop of \<open>parse_url_params\<close> over the positions of the query; \<^term>\<open>None\<close> would be a loop that
  does not end.
\<close>

partial_function (option) parse_url_loop ::
  "string \<Rightarrow> nat \<Rightarrow> (string \<rightharpoonup> string) \<Rightarrow> (string \<rightharpoonup> string) option" where
  "parse_url_loop query pos out =
     (if pos < length query
      then (case find_from (CHR ''='') query pos of
              None \<Rightarrow> Some out
            | Some eq \<Rightarrow>
                let amp = (case find_from (CHR ''&'') query eq of None \<Rightarrow> length query | Some a \<Rightarrow> a);
                    key = substr query pos (eq - pos);
                    val = substr query (eq + 1) (amp - eq - 1)
                in parse_url_loop query (amp + 1) (out(key \<mapsto> val)))
      else Some out)"

declare parse_url_loop.simps [code]

definition parse_url_params :: "string \<Rightarrow> (string \<rightharpoonup> string) \<Rightarrow> (string \<rightharpoonup> string)" where
  "parse_url_params query out =
     (case parse_url_loop query 0 out of Some m \<Rightarrow> m | None \<Rightarrow> out)"

text \<open>The parameters: a JSON text whose string fields count, or else a query string.\<close>

definition decode_params :: "json_lib \<Rightarrow> json \<Rightarrow> (string \<rightharpoonup> string) option" where
  "decode_params J j =
     (case json_find j ''params'' of
        Some (JStr params_str) \<Rightarrow>
          if params_str = '''' then Some Map.empty
          else (case json_parse J params_str of
                  Some pj \<Rightarrow>
                    Some (foldl (\<lambda>m (k, v). case v of JStr s \<Rightarrow> m(k \<mapsto> s) | _ \<Rightarrow> m) Map.empty (json_items pj))
                | None \<Rightarrow>
                    if json_overflow J params_str then None
                    else Some (parse_url_params params_str Map.empty))
      | _ \<Rightarrow> Some Map.empty)"

definition hook_from_json :: "json_lib \<Rightarrow> json \<Rightarrow> ZlmHookRequest option" where
  "hook_from_json J j = do {
     act \<leftarrow> (case json_find j ''action'' of
              Some a \<Rightarrow> map_option parse_action (json_get_string a)
            | None \<Rightarrow> Some UnknownAction);
     fallback \<leftarrow> json_value json_get_string j ''protocol'' ''rtmp'';
     schema_str \<leftarrow> json_value json_get_string j ''schema'' fallback;
     app \<leftarrow> json_value json_get_string j ''app'' ''live'';
     strm \<leftarrow> json_value json_get_string j ''stream'' '''';
     vhost \<leftarrow> json_value json_get_string j ''vhost'' ''__defaultVhost__'';
     cid \<leftarrow> json_value json_get_string j ''id'' '''';
     ip \<leftarrow> json_value json_get_string j ''ip'' '''';
     params \<leftarrow> decode_params J j;
     Some \<lparr>hook_action = act, hook_protocol = parse_protocol schema_str, hook_app = app,
           hook_stream = strm, hook_vhost = vhost, hook_client_id = cid, hook_ip = ip,
           hook_params = params\<rparr>
   }"

section \<open>The query-string loop\<close>

text \<open>
  The reference: a query is read from left to right; a key runs to the next equals sign, its value to
  the next ampersand, and the loop stops where no equals sign is left.
\<close>

function url_pairs :: "string \<Rightarrow> (string \<times> string) list" where
  "url_pairs s =
     (case since (CHR ''='') s of
        [] \<Rightarrow> []
      | _ # r \<Rightarrow> (before (CHR ''='') s, before (CHR ''&'') r) # url_pairs (drop 1 (since (CHR ''&'') r)))"
  by pat_completeness auto
termination
proof (relation "measure length")
  fix s r :: string and c
  assume "since (CHR ''='') s = c # r"
  then have "length r < length s" using length_since [of "CHR ''=''" s] by simp
  then show "(drop 1 (since (CHR ''&'') r), s) \<in> measure length"
    using length_since [of "CHR ''&''" r] by simp
qed simp

declare url_pairs.simps [simp del]

lemma find_from_since:
  "find_from c s pos =
     (case since c (drop pos s) of [] \<Rightarrow> None | _ \<Rightarrow> Some (pos + length (before c (drop pos s))))"
  using length_since [of c "drop pos s"] by (cases "since c (drop pos s)") (auto simp: find_from_def Let_def)

text \<open>One turn of the loop takes the first pair of the rest of the query.\<close>

lemma parse_url_turn:
  fixes query pos
  defines "k \<equiv> before (CHR ''='') (drop pos query)"
  assumes r: "since (CHR ''='') (drop pos query) = c # r"
  shows "parse_url_loop query pos out =
    parse_url_loop query (pos + length k + 1 + length (before (CHR ''&'') r) + 1)
      (out(k \<mapsto> before (CHR ''&'') r))"
proof -
  let ?eq = "pos + length k" and ?v = "before (CHR ''&'') r"
  have pos: "pos < length query" using r by (cases "pos < length query") (auto simp: since_def)
  have at: "drop ?eq query = CHR ''='' # r"
    using drop_before [of "CHR ''=''" "drop pos query"] r since_Cons [OF r]
    unfolding k_def [symmetric] drop_drop by (simp add: add.commute)
  have rest: "drop (?eq + 1) query = r"
    using at by (metis add.commute drop_drop drop0 drop_Suc_Cons One_nat_def)
  have find: "find_from (CHR ''='') query pos = Some ?eq"
    using r by (simp add: find_from_since k_def)
  have len: "length query = ?eq + 1 + length r"
    using arg_cong [OF at, of length] by simp
  have amp: "(case find_from (CHR ''&'') query ?eq of None \<Rightarrow> length query | Some a \<Rightarrow> a) = ?eq + 1 + length ?v"
    using length_since [of "CHR ''&''" r]
    by (auto simp: find_from_since at since_skip len split: list.splits)
  have key: "substr query pos (?eq - pos) = k"
    by (simp add: substr_def k_def)
  have val: "substr query (?eq + 1) (?eq + 1 + length ?v - ?eq - 1) = ?v"
    unfolding substr_def rest by simp
  show ?thesis
    by (subst parse_url_loop.simps) (simp only: pos find amp key val Let_def if_True option.case)
qed

lemma parse_url_loop_pairs:
  "parse_url_loop query pos out = Some (put_pairs (url_pairs (drop pos query)) out)"
proof (induction "length query - pos" arbitrary: pos out rule: less_induct)
  case less
  show ?case
  proof (cases "since (CHR ''='') (drop pos query)")
    case Nil
    then show ?thesis
      by (subst parse_url_loop.simps) (simp add: find_from_since url_pairs.simps [of "drop pos query"])
  next
    case (Cons c r)
    let ?k = "before (CHR ''='') (drop pos query)" and ?v = "before (CHR ''&'') r"
    let ?next = "pos + length ?k + 1 + length ?v + 1"
    have "pos < length query" using Cons by (cases "pos < length query") (auto simp: since_def)
    then have "length query - ?next < length query - pos" by simp
    note ih = less.hyps [OF this, of "out(?k \<mapsto> ?v)"]
    have "drop (length ?k) (drop pos query) = c # r" using Cons by (simp del: drop_drop)
    then have "drop (pos + length ?k + 1) query = r"
      by (metis add.commute drop_drop drop0 drop_Suc_Cons One_nat_def)
    then have "drop ?next query = drop 1 (since (CHR ''&'') r)"
      by (metis add.commute drop_drop drop_before)
    then show ?thesis
      unfolding parse_url_turn [OF Cons] ih by (simp add: url_pairs.simps [of "drop pos query"] Cons)
  qed
qed

text \<open>
  C27. The query-string loop ends on every input, and what it leaves in the map is the list of pairs
  that the left-to-right reading of the query gives, later pairs overriding earlier ones.
\<close>

theorem parse_url_loop_equiv:
  "parse_url_loop query 0 out = Some (put_pairs (url_pairs query) out)
   \<and> parse_url_params query out = put_pairs (url_pairs query) out"
  using parse_url_loop_pairs [of query 0 out] by (simp add: parse_url_params_def)

section \<open>Printed parameters parse back\<close>

text \<open>How a client writes its parameters: pairs joined by ampersands.\<close>

fun print_params :: "(string \<times> string) list \<Rightarrow> string" where
  "print_params [] = ''''"
| "print_params [(k, v)] = k @ ''='' @ v"
| "print_params ((k, v) # ps) = k @ ''='' @ v @ ''&'' @ print_params ps"

lemma url_pairs_print:
  assumes "\<forall>(k, v) \<in> set ps. CHR ''='' \<notin> set k \<and> CHR ''&'' \<notin> set v"
  shows "url_pairs (print_params ps) = ps"
  using assms
proof (induction ps rule: print_params.induct)
  case 1
  show ?case by (simp add: url_pairs.simps since_def)
next
  case (2 k v)
  then show ?case
    using before_append [of "CHR ''=''" k v] before_all [of "CHR ''&''" v]
    by (simp add: url_pairs.simps [of "k @ CHR ''='' # v"] url_pairs.simps [of "[]"] since_def [of _ "[]"])
next
  case (3 k v p ps)
  let ?rest = "print_params (p # ps)"
  have "url_pairs (k @ CHR ''='' # v @ CHR ''&'' # ?rest) = (k, v) # url_pairs ?rest"
    using 3 before_append [of "CHR ''=''" k "v @ CHR ''&'' # ?rest"] before_append [of "CHR ''&''" v ?rest]
    by (subst url_pairs.simps) simp
  then show ?case using 3 by simp
qed

text \<open>
  C28. A query string written from pairs whose keys hold no equals sign and whose values hold no
  ampersand decodes to exactly these pairs, and the token a client sends is the token the gateway
  checks: decoding a hook whose parameters are such a query gives the value of its last
  \<open>token\<close> pair.
\<close>

theorem query_params_roundtrip:
  assumes "\<forall>(k, v) \<in> set ps. CHR ''='' \<notin> set k \<and> CHR ''&'' \<notin> set v"
    and "hook_from_json J j = Some req" "json_find j ''params'' = Some (JStr (print_params ps))"
    and "json_parse J (print_params ps) = None"
  shows "hook_params req = map_of (rev ps)
    \<and> get_token req = (case map_of (rev ps) ''token'' of Some t \<Rightarrow> t | None \<Rightarrow> '''')"
proof -
  have "parse_url_params (print_params ps) Map.empty = map_of (rev ps)"
    using parse_url_loop_pairs [of "print_params ps" 0 Map.empty]
    by (simp add: parse_url_params_def url_pairs_print [OF assms(1)] put_pairs_map)
  moreover have "ps = []" if "print_params ps = ''''"
    using that by (cases ps rule: print_params.cases) auto
  ultimately have "hook_params req = map_of (rev ps)"
    using assms(2-4)
    by (auto simp: hook_from_json_def decode_params_def bind_eq_Some_conv split: if_splits)
  then show ?thesis by (simp add: get_token_def)
qed

definition demo_hook_json :: json where
  "demo_hook_json = JObj
     [(''app'', JStr ''live''), (''id'', JStr ''c1''), (''params'', JStr ''sg=1&token=tok''),
      (''schema'', JStr ''rtmp''), (''stream'', JStr ''s1''), (''vhost'', JStr ''v'')]"

definition demo_hook :: ZlmHookRequest where
  "demo_hook = \<lparr>hook_action = UnknownAction, hook_protocol = RTMP, hook_app = ''live'',
     hook_stream = ''s1'', hook_vhost = ''v'', hook_client_id = ''c1'', hook_ip = '''',
     hook_params = [''token'' \<mapsto> ''tok'', ''sg'' \<mapsto> ''1'']\<rparr>"

lemma demo_hook_decodes: "hook_from_json (table_json []) demo_hook_json = Some demo_hook"
proof -
  have "parse_url_params ''sg=1&token=tok'' Map.empty = [''token'' \<mapsto> ''tok'', ''sg'' \<mapsto> ''1'']"
    using parse_url_loop_pairs [of "''sg=1&token=tok''" 0 Map.empty]
      url_pairs_print [of "[(''sg'', ''1''), (''token'', ''tok'')]"]
    by (auto simp: parse_url_params_def)
  then show ?thesis
    by (simp add: hook_from_json_def demo_hook_json_def json_find_def json_value_def json_get_string_def
        decode_params_def table_json_def parse_protocol_def demo_hook_def)
qed

theorem query_params_roundtrip_witness:
  "hook_params demo_hook = map_of (rev [(''sg'', ''1''), (''token'', ''tok'')])
   \<and> get_token demo_hook
     = (case map_of (rev [(''sg'', ''1''), (''token'', ''tok'')]) ''token'' of Some t \<Rightarrow> t | None \<Rightarrow> '''')"
  by (rule query_params_roundtrip [OF _ demo_hook_decodes])
    (simp_all add: demo_hook_json_def json_find_def table_json_def)

end
