(* ===== verification/Auth_Repository.thy ===== *)
theory Auth_Repository
  imports Cache_Manager Json_Api "HOL-Library.Word"
begin

text \<open>
  The authentication data (\<open>include/StreamAuthData.h\<close>, \<open>src/models/StreamAuthData.cpp\<close>), the
  JSON-typed methods of \<open>CacheManager\<close> and \<open>HybridAuthRepository\<close>
  (\<open>src/repository/HybridAuthRepository.cpp\<close>), which answers from the Redis cache and falls back to
  the database. The database and its driver are a parameter, the record \<open>auth_db\<close>: its
  \<open>db_select\<close> is the borrowing of a connection and the one query of \<open>getAuthDataFromDB\<close>.
\<close>

section \<open>Authentication data\<close>

record StreamAuthData =
  streamKey :: string
  auth_clientId :: string
  authToken :: string
  isAuthorized :: bool
  expireTime :: int
  metadata :: "(string \<times> string) list"

definition default_auth :: StreamAuthData where
  "default_auth = \<lparr>streamKey = '''', auth_clientId = '''', authToken = '''', isAuthorized = False,
     expireTime = 0, metadata = []\<rparr>"

definition isValid :: "StreamAuthData \<Rightarrow> bool" where
  "isValid d \<longleftrightarrow> streamKey d \<noteq> '''' \<and> isAuthorized d"

text \<open>\<open>to_json\<close>; the library keeps the fields of an object in key order.\<close>

definition to_json :: "StreamAuthData \<Rightarrow> json" where
  "to_json d = JObj
     [(''authToken'', JStr (authToken d)),
      (''clientId'', JStr (auth_clientId d)),
      (''expireTime'', JInt (expireTime d)),
      (''isAuthorized'', JBool (isAuthorized d)),
      (''metadata'', jstrings (metadata d)),
      (''streamKey'', JStr (streamKey d))]"

text \<open>A value read as \<open>uint64_t\<close> and stored in a \<open>long long\<close>.\<close>

definition wrap64 :: "int \<Rightarrow> int" where
  "wrap64 i = (let u = i mod 2 ^ 64 in if u < 2 ^ 63 then u else u - 2 ^ 64)"

definition from_json :: "json \<Rightarrow> StreamAuthData option" where
  "from_json j = do {
     sk \<leftarrow> json_value json_get_string j ''streamKey'' '''';
     cid \<leftarrow> json_value json_get_string j ''clientId'' '''';
     tok \<leftarrow> json_value json_get_string j ''authToken'' '''';
     auth \<leftarrow> json_value json_get_bool j ''isAuthorized'' False;
     md \<leftarrow> (case json_find j ''metadata'' of Some (JObj ps) \<Rightarrow> json_string_map ps | _ \<Rightarrow> Some []);
     et \<leftarrow> json_value json_get_int j ''expireTime'' 0;
     Some \<lparr>streamKey = sk, auth_clientId = cid, authToken = tok, isAuthorized = auth,
           expireTime = wrap64 et, metadata = md\<rparr>
   }"

definition auth_serialize :: "json_lib \<Rightarrow> StreamAuthData \<Rightarrow> string" where
  "auth_serialize J d = (case json_dump J (to_json d) of Some s \<Rightarrow> s | None \<Rightarrow> '''')"

definition auth_deserialize :: "json_lib \<Rightarrow> string \<Rightarrow> StreamAuthData option" where
  "auth_deserialize J data =
     (if data = '''' then None
      else (case json_parse J data of
              None \<Rightarrow> None
            | Some j \<Rightarrow> (case from_json j of
                 None \<Rightarrow> None
               | Some result \<Rightarrow> if streamKey result = '''' then None else Some result)))"

section \<open>What is logged of a token\<close>

definition maskToken :: "string \<Rightarrow> string" where
  "maskToken token =
     (if token = [] then ''<empty>''
      else if length token \<le> 8 then ''****''
      else take 4 token @ ''...'' @ drop (length token - 4) token)"

text \<open>The log shows nothing of a short token, and of a long one its two ends only.\<close>

lemma maskToken_hides:
  assumes "length tok = length tok'" "8 < length tok \<longrightarrow> take 4 tok = take 4 tok' \<and> drop (length tok - 4) tok = drop (length tok' - 4) tok'"
  shows "maskToken tok = maskToken tok' \<and> length (maskToken tok) \<le> 11"
  using assms by (auto simp: maskToken_def)

section \<open>JSON-typed cache methods\<close>

definition decode_cached :: "json_lib \<Rightarrow> string \<Rightarrow> StreamAuthData option" where
  "decode_cached J s =
     (if s = ''__EMPTY__'' then None
      else (case json_parse J s of None \<Rightarrow> None | Some j \<Rightarrow> from_json j))"

definition getAuthDataFromCacheByKey ::
  "json_lib \<Rightarrow> 'w CacheManager \<Rightarrow> string \<Rightarrow> ('w, StreamAuthData option) state" where
  "getAuthDataFromCacheByKey J cm customKey = do {
     opt \<leftarrow> getString cm customKey;
     ret (case opt of None \<Rightarrow> None | Some s \<Rightarrow> decode_cached J s)
   }"

definition getAuthDataFromCache ::
  "json_lib \<Rightarrow> 'w CacheManager \<Rightarrow> string \<Rightarrow> ('w, StreamAuthData option) state" where
  "getAuthDataFromCache J cm sk = getAuthDataFromCacheByKey J cm (buildKey sk ''data'')"

definition setAuthDataToCacheByKey ::
  "json_lib \<Rightarrow> 'w CacheManager \<Rightarrow> string \<Rightarrow> StreamAuthData \<Rightarrow> int \<Rightarrow> ('w, unit) state" where
  "setAuthDataToCacheByKey J cm key data ttl0 =
     (let ttl = (if ttl0 \<le> 0 then cacheTTL cm else ttl0) in
      (case json_dump J (to_json data) of
         None \<Rightarrow> ret ()
       | Some s \<Rightarrow> setString cm key s ttl))"

definition setAuthDataToCache ::
  "json_lib \<Rightarrow> 'w CacheManager \<Rightarrow> StreamAuthData \<Rightarrow> int \<Rightarrow> ('w, unit) state" where
  "setAuthDataToCache J cm data ttl =
     setAuthDataToCacheByKey J cm (buildKey (streamKey data) ''data'') data ttl"

section \<open>The database\<close>

text \<open>
  What the query yields: no connection (the pool is exhausted or shut down), an SQL error, another
  exception, no row, or the columns \<open>client_id\<close> and \<open>is_active\<close> of a matching row.
\<close>

datatype db_reply = NoConnection | SqlException | DbException | NoRow | Row string bool

record 'w auth_db =
  db_select :: "string \<Rightarrow> string \<Rightarrow> string \<Rightarrow> ('w, db_reply) state"
  db_isConnected :: "('w, bool) state"

definition getAuthDataFromDB ::
  "'w auth_db \<Rightarrow> string \<Rightarrow> string \<Rightarrow> string \<Rightarrow> ('w, StreamAuthData option) call" where
  "getAuthDataFromDB D sk cid tok = do {
     rep \<leftarrow> db_select D sk cid tok;
     case rep of
       NoConnection \<Rightarrow> ok None
     | SqlException \<Rightarrow> ok None
     | DbException \<Rightarrow> throw (RuntimeError ''db'')
     | NoRow \<Rightarrow> ok None
     | Row c active \<Rightarrow>
         ok (Some (default_auth\<lparr>streamKey := sk, auth_clientId := c, isAuthorized := active,
                                authToken := tok\<rparr>))
   }"

section \<open>The hybrid repository\<close>

record HybridAuthRepository =
  repo_cacheTTL :: int
  cacheHits :: "64 word"
  cacheMisses :: "64 word"
  dbHits :: "64 word"
  dbMisses :: "64 word"
  dbErrors :: "64 word"
  validationFailures :: "64 word"

definition NEGATIVE_CACHE_TTL :: int where "NEGATIVE_CACHE_TTL = 30"
definition TRANSIENT_DB_ERROR_TTL :: int where "TRANSIENT_DB_ERROR_TTL = 5"

definition new_HybridAuthRepository :: "'w CacheManager \<Rightarrow> HybridAuthRepository" where
  "new_HybridAuthRepository cm =
     \<lparr>repo_cacheTTL = cacheTTL cm, cacheHits = 0, cacheMisses = 0, dbHits = 0, dbMisses = 0,
      dbErrors = 0, validationFailures = 0\<rparr>"

definition buildCacheKey :: "string \<Rightarrow> string \<Rightarrow> string" where
  "buildCacheKey sk cid = ''auth_data:'' @ sk @ '':'' @ cid"

definition validateAuthData :: "StreamAuthData \<Rightarrow> string \<Rightarrow> string \<Rightarrow> string \<Rightarrow> bool" where
  "validateAuthData data sk cid tok =
     (if streamKey data \<noteq> sk \<or> auth_clientId data \<noteq> cid \<or> authToken data \<noteq> tok then False
      else streamKey data \<noteq> '''' \<and> auth_clientId data \<noteq> '''' \<and> authToken data \<noteq> '''')"

definition cacheAuthData ::
  "json_lib \<Rightarrow> 'w CacheManager \<Rightarrow> HybridAuthRepository \<Rightarrow> string \<Rightarrow> StreamAuthData \<Rightarrow> ('w, unit) state" where
  "cacheAuthData J cm repo cacheKey data =
     setAuthDataToCacheByKey J cm cacheKey data (repo_cacheTTL repo)"

definition cacheNegativeResult :: "'w CacheManager \<Rightarrow> string \<Rightarrow> int \<Rightarrow> ('w, unit) state" where
  "cacheNegativeResult cm cacheKey ttl = setEmptyAuthDataToCache cm cacheKey ttl"

definition queryDatabase ::
  "'w CacheManager \<Rightarrow> 'w auth_db \<Rightarrow> HybridAuthRepository \<Rightarrow> string \<Rightarrow> string \<Rightarrow> string \<Rightarrow> string \<Rightarrow>
   ('w, StreamAuthData option \<times> HybridAuthRepository) state" where
  "queryDatabase cm D repo sk cid tok cacheKey = do {
     res \<leftarrow> getAuthDataFromDB D sk cid tok;
     case res of
       Inr (Some data) \<Rightarrow> ret (Some data, repo\<lparr>dbHits := dbHits repo + 1\<rparr>)
     | Inr None \<Rightarrow> do {
         _ \<leftarrow> cacheNegativeResult cm cacheKey NEGATIVE_CACHE_TTL;
         ret (None, repo\<lparr>dbMisses := dbMisses repo + 1\<rparr>)
       }
     | Inl _ \<Rightarrow> do {
         _ \<leftarrow> cacheNegativeResult cm cacheKey TRANSIENT_DB_ERROR_TTL;
         ret (None, repo\<lparr>dbErrors := dbErrors repo + 1\<rparr>)
       }
   }"

text \<open>
  \<open>tryGetFromCache\<close> guards the cache read against exceptions; the read catches those of the
  client and of the JSON library itself, so none is left to catch.
\<close>

definition tryGetFromCache ::
  "json_lib \<Rightarrow> 'w CacheManager \<Rightarrow> string \<Rightarrow> ('w, StreamAuthData option) state" where
  [simp]: "tryGetFromCache J cm cacheKey = getAuthDataFromCacheByKey J cm cacheKey"

definition getAuthData ::
  "json_lib \<Rightarrow> 'w CacheManager \<Rightarrow> 'w auth_db \<Rightarrow> HybridAuthRepository \<Rightarrow> string \<Rightarrow> string \<Rightarrow> string \<Rightarrow>
   ('w, StreamAuthData option \<times> HybridAuthRepository) state" where
  "getAuthData J cm D repo sk cid tok =
     (let cacheKey = buildCacheKey sk cid in do {
        cached \<leftarrow> tryGetFromCache J cm cacheKey;
        case cached of
          Some cacheData \<Rightarrow>
            let repo = repo\<lparr>cacheHits := cacheHits repo + 1\<rparr> in
            if authToken cacheData = tok \<and> auth_clientId cacheData = cid
            then ret (Some cacheData, repo)
            else do {
              _ \<leftarrow> keyDel cm cacheKey;
              ret (None, repo\<lparr>validationFailures := validationFailures repo + 1\<rparr>)
            }
        | None \<Rightarrow> do {
            r \<leftarrow> queryDatabase cm D (repo\<lparr>cacheMisses := cacheMisses repo + 1\<rparr>) sk cid tok cacheKey;
            case r of
              (None, repo) \<Rightarrow> ret (None, repo)
            | (Some data, repo) \<Rightarrow>
                if \<not> validateAuthData data sk cid tok
                then ret (None, repo\<lparr>validationFailures := validationFailures repo + 1\<rparr>)
                else do {
                  _ \<leftarrow> cacheAuthData J cm repo cacheKey data;
                  ret (Some data, repo)
                }
          }
      })"

text \<open>The statistics; the hit rate is the exact quotient, which the program rounds to a \<open>double\<close>.\<close>

record RepoStats =
  rs_cache_hits :: "64 word"
  rs_cache_misses :: "64 word"
  rs_db_hits :: "64 word"
  rs_db_misses :: "64 word"
  rs_db_errors :: "64 word"
  rs_validation_failures :: "64 word"
  rs_cache_hit_rate :: rat

definition getStats :: "HybridAuthRepository \<Rightarrow> RepoStats" where
  "getStats repo =
     (let total = cacheHits repo + cacheMisses repo in
      \<lparr>rs_cache_hits = cacheHits repo, rs_cache_misses = cacheMisses repo, rs_db_hits = dbHits repo,
       rs_db_misses = dbMisses repo, rs_db_errors = dbErrors repo,
       rs_validation_failures = validationFailures repo,
       rs_cache_hit_rate =
         (if 0 < total then of_nat (unat (cacheHits repo)) / of_nat (unat total) else 0)\<rparr>)"

definition resetStats :: "HybridAuthRepository \<Rightarrow> HybridAuthRepository" where
  "resetStats repo =
     repo\<lparr>cacheHits := 0, cacheMisses := 0, dbHits := 0, dbMisses := 0, dbErrors := 0,
          validationFailures := 0\<rparr>"

definition repo_isHealthy :: "'w CacheManager \<Rightarrow> 'w auth_db \<Rightarrow> ('w, bool) call" where
  "repo_isHealthy cm D =
     bindE (ping cm) (\<lambda>b. if b then do { c \<leftarrow> db_isConnected D; ok c } else ok False)"

end
