(* ===== verification/Auth_Properties.thy ===== *)
theory Auth_Properties
  imports Auth_Repository
begin

text \<open>
  The properties of the authentication repository. \<open>auth_backend\<close> is what the repository relies
  on: a Redis server that may fail, and a database whose answers are rows of its table under the
  collation of its columns. The main property: no client is authorised, through the cache or past
  it, that the database has not authorised.
\<close>

section \<open>The backend\<close>

text \<open>The columns \<open>stream_key\<close>, \<open>client_id\<close>, \<open>auth_token\<close> and \<open>is_active\<close> of a row.\<close>

type_synonym auth_row = "string \<times> string \<times> string \<times> bool"

definition authorised :: "(string \<Rightarrow> string \<Rightarrow> bool) \<Rightarrow> auth_row set \<Rightarrow> string \<Rightarrow> string \<Rightarrow> string \<Rightarrow> bool" where
  "authorised col_eq T sk cid tok \<longleftrightarrow>
     (\<exists>k t. (k, cid, t, True) \<in> T \<and> col_eq sk k \<and> col_eq tok t)"

locale auth_backend = redis_server R view for R :: "'w redis" and view :: "'w \<Rightarrow> keyspace" +
  fixes D :: "'w auth_db" and rows :: "'w \<Rightarrow> auth_row set" and col_eq :: "string \<Rightarrow> string \<Rightarrow> bool"
  assumes redis_frame: "rows (snd (run_state (redis_exec R cmd) w)) = rows w"
    and db_frame: "view (snd (run_state (db_select D sk cid tok) w)) = view w"
      "rows (snd (run_state (db_select D sk cid tok) w)) = rows w"
    and db_sound: "fst (run_state (db_select D sk cid tok) w) = Row c a \<Longrightarrow>
      \<exists>k t. (k, c, t, a) \<in> rows w \<and> col_eq sk k \<and> col_eq cid c \<and> col_eq tok t"
begin

lemma exec_both:
  "outcome (\<lambda>w. (view w, rows w)) (K, T) (redis_exec R c)
     (\<lambda>res (L, U). U = T \<and> (case res of
          Inr rep \<Rightarrow> reply_ok c K rep \<and> L = apply_cmd c K
        | Inl _ \<Rightarrow> L = K \<or> L = apply_cmd c K))"
  using exec_law [of K c] redis_frame
  by (auto simp: outcome_def split: sum.splits)

lemma getString_both:
  "outcome (\<lambda>w. (view w, rows w)) (K, T) (getString (ready R) k)
     (\<lambda>r (L, U). L = K \<and> U = T \<and> (\<forall>s. r = Some s \<longrightarrow> (\<exists>t. K k = Some (RStr s, t))))"
  unfolding getString_def
  by (auto intro!: outcome_bind [OF exec_both] split: sum.splits redis_reply.splits option.splits
      prod.splits rvalue.splits)

lemma setString_both:
  "outcome (\<lambda>w. (view w, rows w)) (K, T) (setString (ready R) k v ttl)
     (\<lambda>_ (L, U). U = T \<and> (L = K \<or> (\<exists>t. L = K(k \<mapsto> (RStr v, t)))))"
  unfolding setString_def Let_def
  by (auto intro!: outcome_bind [OF exec_both] outcome_return split: sum.splits if_splits)

lemma keyDel_both:
  "outcome (\<lambda>w. (view w, rows w)) (K, T) (keyDel (ready R) k)
     (\<lambda>_ (L, U). U = T \<and> (L = K \<or> L = K(k := None)))"
  unfolding keyDel_def
  by (auto intro!: outcome_bind [OF exec_both] outcome_return split: sum.splits)

lemma getAuthDataFromDB_both:
  "outcome (\<lambda>w. (view w, rows w)) (K, T) (getAuthDataFromDB D sk cid tok)
     (\<lambda>r (L, U). L = K \<and> U = T \<and> (\<forall>d. r = Inr (Some d) \<longrightarrow>
        streamKey d = sk \<and> authToken d = tok \<and> expireTime d = 0 \<and> metadata d = []
        \<and> (isAuthorized d \<longrightarrow> authorised col_eq T sk (auth_clientId d) tok)))"
proof -
  have q: "outcome (\<lambda>w. (view w, rows w)) (K, T) (db_select D sk cid tok)
     (\<lambda>rep (L, U). L = K \<and> U = T \<and> (\<forall>c a. rep = Row c a \<longrightarrow>
        (\<exists>k t. (k, c, t, a) \<in> T \<and> col_eq sk k \<and> col_eq cid c \<and> col_eq tok t)))"
    using db_frame db_sound by (auto simp: outcome_def)
  show ?thesis
    unfolding getAuthDataFromDB_def
    by (rule outcome_bind [OF q])
      (auto simp: default_auth_def authorised_def intro!: outcome_return split: db_reply.splits; blast)
qed

end

section \<open>The cache invariant\<close>

text \<open>
  \<open>cache_ok J H K\<close>: every decodable entry under the repository's prefix stands under the key of
  its own stream and client, and an authorised one is justified by \<open>H\<close>.
\<close>

definition cache_ok ::
  "json_lib \<Rightarrow> (string \<Rightarrow> string \<Rightarrow> string \<Rightarrow> bool) \<Rightarrow> keyspace \<Rightarrow> bool" where
  "cache_ok J H K \<longleftrightarrow> (\<forall>k s t d. K k = Some (RStr s, t) \<longrightarrow> take 10 k = ''auth_data:'' \<longrightarrow>
     decode_cached J s = Some d \<longrightarrow>
     k = buildCacheKey (streamKey d) (auth_clientId d)
     \<and> (isAuthorized d \<longrightarrow> H (streamKey d) (auth_clientId d) (authToken d)))"

lemma cache_okD:
  assumes "cache_ok J H K" "K (buildCacheKey sk cid) = Some (RStr s, t)" "decode_cached J s = Some d"
  shows "buildCacheKey sk cid = buildCacheKey (streamKey d) (auth_clientId d)"
    "isAuthorized d \<Longrightarrow> H (streamKey d) (auth_clientId d) (authToken d)"
proof -
  have "take 10 (buildCacheKey sk cid) = ''auth_data:''" by (simp add: buildCacheKey_def)
  with assms have "buildCacheKey sk cid = buildCacheKey (streamKey d) (auth_clientId d)
     \<and> (isAuthorized d \<longrightarrow> H (streamKey d) (auth_clientId d) (authToken d))"
    unfolding cache_ok_def by blast
  then show "buildCacheKey sk cid = buildCacheKey (streamKey d) (auth_clientId d)"
    "isAuthorized d \<Longrightarrow> H (streamKey d) (auth_clientId d) (authToken d)"
    by blast+
qed

lemma cache_ok_remove: "cache_ok J H K \<Longrightarrow> cache_ok J H (K(k := None))"
  by (auto simp: cache_ok_def)

lemma cache_ok_insert:
  assumes "cache_ok J H K"
    and "\<And>d. decode_cached J s = Some d \<Longrightarrow> k = buildCacheKey (streamKey d) (auth_clientId d)
       \<and> (isAuthorized d \<longrightarrow> H (streamKey d) (auth_clientId d) (authToken d))"
  shows "cache_ok J H (K(k \<mapsto> (RStr s, t)))"
  using assms by (auto simp: cache_ok_def)

lemma buildCacheKey_stream: "buildCacheKey sk cid = buildCacheKey sk' cid \<longleftrightarrow> sk = sk'"
  by (simp add: buildCacheKey_def)

lemma wrap64_id:
  assumes "int64_range i"
  shows "wrap64 i = i"
proof (cases "0 \<le> i")
  case True
  then show ?thesis using assms by (simp add: wrap64_def int64_range_def)
next
  case False
  have "i mod 2 ^ 64 = (i + 2 ^ 64) mod 2 ^ 64" by simp
  also have "\<dots> = i + 2 ^ 64"
    using False assms by (intro mod_pos_pos_trivial) (auto simp: int64_range_def)
  finally show ?thesis using False assms by (simp add: wrap64_def int64_range_def Let_def)
qed

lemma from_json_to_json:
  assumes "int64_range (expireTime d)"
  shows "from_json (to_json d) = Some d"
  using assms
  by (simp add: from_json_def to_json_def json_value_def json_find_def json_get_string_def
      json_get_bool_def json_get_int_def jstrings_def wrap64_id)

lemma to_json_wf: "sorted_wrt (<) (map fst (metadata d)) \<Longrightarrow> json_wf (to_json d)"
  by (simp add: to_json_def jstrings_def comp_def case_prod_beta list_all_iff)

lemma decode_dump:
  assumes "json_roundtrip J" "json_dump J (to_json d) = Some s" "metadata d = []" "expireTime d = 0"
    and "decode_cached J s = Some d'"
  shows "d' = d"
proof -
  have "json_parse J s = Some (to_json d)"
    using assms(1,2,3) to_json_wf [of d] by (simp add: json_roundtrip_def)
  then show ?thesis
    using assms(4,5) from_json_to_json [of d]
    by (auto simp: decode_cached_def int64_range_def split: if_splits)
qed

context auth_backend
begin

lemma getAuthDataFromCacheByKey_both:
  "outcome (\<lambda>w. (view w, rows w)) (K, T) (getAuthDataFromCacheByKey J (ready R) k)
     (\<lambda>r (L, U). L = K \<and> U = T \<and> (\<forall>d. r = Some d \<longrightarrow>
        (\<exists>s t. K k = Some (RStr s, t) \<and> decode_cached J s = Some d)))"
  unfolding getAuthDataFromCacheByKey_def
  by (rule outcome_bind [OF getString_both]) (auto intro!: outcome_return split: option.splits)

lemma cache_ok_setString:
  assumes "cache_ok J H K"
    and "\<And>d. decode_cached J s = Some d \<Longrightarrow> k = buildCacheKey (streamKey d) (auth_clientId d)
       \<and> (isAuthorized d \<longrightarrow> H (streamKey d) (auth_clientId d) (authToken d))"
  shows "outcome (\<lambda>w. (view w, rows w)) (K, T) (setString (ready R) k s ttl)
    (\<lambda>_ (L, U). U = T \<and> cache_ok J H L)"
  by (rule outcome_mono [OF setString_both]) (use assms cache_ok_insert [OF assms] in auto)

lemma cache_ok_negative:
  assumes "cache_ok J H K"
  shows "outcome (\<lambda>w. (view w, rows w)) (K, T) (cacheNegativeResult (ready R) k ttl)
    (\<lambda>_ (L, U). U = T \<and> cache_ok J H L)"
  unfolding cacheNegativeResult_def setEmptyAuthDataToCache_def Let_def
  by (rule cache_ok_setString [OF assms]) (simp add: decode_cached_def)

lemma queryDatabase_both:
  assumes "cache_ok J H K"
  shows "outcome (\<lambda>w. (view w, rows w)) (K, T) (queryDatabase (ready R) D repo sk cid tok k)
    (\<lambda>(r, _) (L, U). U = T \<and> cache_ok J H L \<and> (\<forall>d. r = Some d \<longrightarrow>
       expireTime d = 0 \<and> metadata d = [] \<and> streamKey d = sk \<and> authToken d = tok
       \<and> (isAuthorized d \<longrightarrow> authorised col_eq T sk (auth_clientId d) tok)))"
  unfolding queryDatabase_def
  by (rule outcome_bind [OF getAuthDataFromDB_both])
    (use assms in \<open>auto intro!: outcome_return outcome_bind [OF cache_ok_negative [OF assms]]
       split: sum.splits option.splits\<close>)

lemma cacheAuthData_both:
  assumes "json_roundtrip J" "cache_ok J H K" "metadata d = []" "expireTime d = 0"
    and "isAuthorized d \<longrightarrow> H (streamKey d) (auth_clientId d) (authToken d)"
  shows "outcome (\<lambda>w. (view w, rows w)) (K, T)
    (cacheAuthData J (ready R) repo (buildCacheKey (streamKey d) (auth_clientId d)) d)
    (\<lambda>_ (L, U). U = T \<and> cache_ok J H L)"
  unfolding cacheAuthData_def setAuthDataToCacheByKey_def Let_def
  using assms decode_dump [OF assms(1) _ assms(3,4)]
  by (auto intro!: cache_ok_setString outcome_return split: option.splits)

lemma getAuthData_both:
  assumes J: "json_roundtrip J" and cache: "cache_ok J H K"
    and H: "\<And>sk cid tok. authorised col_eq T sk cid tok \<Longrightarrow> H sk cid tok"
  shows "outcome (\<lambda>w. (view w, rows w)) (K, T) (getAuthData J (ready R) D repo sk cid tok)
    (\<lambda>(r, _) (L, U). U = T \<and> cache_ok J H L
       \<and> (\<forall>d. r = Some d \<longrightarrow> streamKey d = sk \<and> auth_clientId d = cid \<and> authToken d = tok
          \<and> (isAuthorized d \<longrightarrow> H sk cid tok)))"
    (is "outcome ?v _ _ ?post")
proof -
  let ?k = "buildCacheKey sk cid"
  have hit: "streamKey d = sk \<and> (isAuthorized d \<longrightarrow> H sk cid (authToken d))"
    if "K ?k = Some (RStr s, t)" "decode_cached J s = Some d" "auth_clientId d = cid" for s t d
    using cache_okD [OF cache that(1,2)] that(3) by (auto simp: buildCacheKey_stream)
  have del: "outcome ?v (K, T) (do { _ \<leftarrow> keyDel (ready R) ?k; ret (None, r) }) ?post" for r
    by (rule outcome_bind [OF keyDel_both]) (use cache in \<open>auto intro!: outcome_return cache_ok_remove\<close>)
  have store: "outcome ?v (L, T) (do { _ \<leftarrow> cacheAuthData J (ready R) r ?k d; ret (Some d, r) }) ?post"
    if d: "expireTime d = 0" "metadata d = []" "streamKey d = sk" "authToken d = tok" "auth_clientId d = cid"
      "isAuthorized d \<longrightarrow> authorised col_eq T sk (auth_clientId d) tok" "cache_ok J H L" for L d r
    using d H cacheAuthData_both [OF J d(7,2,1), of T r]
    by (auto intro!: outcome_bind [of ?v "(L, T)"] outcome_return)
  have miss: "outcome ?v (L, T) (case a of None \<Rightarrow> ret (None, r)
      | Some d \<Rightarrow> if \<not> validateAuthData d sk cid tok
          then ret (None, r\<lparr>validationFailures := validationFailures r + 1\<rparr>)
          else do { _ \<leftarrow> cacheAuthData J (ready R) r ?k d; ret (Some d, r) }) ?post"
    if "cache_ok J H L" "\<forall>d. a = Some d \<longrightarrow>
       expireTime d = 0 \<and> metadata d = [] \<and> streamKey d = sk \<and> authToken d = tok
       \<and> (isAuthorized d \<longrightarrow> authorised col_eq T sk (auth_clientId d) tok)" for a r L
    using that store
    by (auto intro!: outcome_return simp: validateAuthData_def split: option.splits if_splits)
  show ?thesis
    unfolding getAuthData_def tryGetFromCache_def Let_def
  proof (rule outcome_bind [OF getAuthDataFromCacheByKey_both], goal_cases)
    case (1 c LU)
    then show ?case
      using hit del cache
      by (cases c) (auto intro!: outcome_return outcome_bind [OF queryDatabase_both [OF cache]] miss)
  qed
qed

end

end
