(* ===== verification/Auth_Manager.thy ===== *)
theory Auth_Manager
  imports Auth_Properties
begin

text \<open>
  \<open>IAuthRepository\<close> as the record of its virtual methods over a repository state \<open>'r\<close>, the hybrid
  repository as its implementation, and \<open>AuthManager\<close> (\<open>src/auth/AuthManager.cpp\<close>). The manager
  hands its work to the thread pool; \<open>pool_fate\<close> says what becomes of the submitted task, which
  the scheduling of the pool decides: the submission is rejected and throws, the task runs while
  the caller waits, it runs after the caller's wait timed out, or it finds the manager shut down.
\<close>

record AuthRequest =
  req_streamKey :: string
  req_clientId :: string
  req_authToken :: string

record ('w, 'r) IAuthRepository =
  iar_getAuthData ::
    "'r \<Rightarrow> string \<Rightarrow> string \<Rightarrow> string \<Rightarrow> ('w, (exn + StreamAuthData option) \<times> 'r) state"
  iar_isHealthy :: "('w, bool) call"

definition hybrid_repository ::
  "json_lib \<Rightarrow> 'w CacheManager \<Rightarrow> 'w auth_db \<Rightarrow> ('w, HybridAuthRepository) IAuthRepository" where
  "hybrid_repository J cm D =
     \<lparr>iar_getAuthData = (\<lambda>repo sk cid tok. do {
        r \<leftarrow> getAuthData J cm D repo sk cid tok;
        ret (Inr (fst r), snd r)
      }),
      iar_isHealthy = repo_isHealthy cm D\<rparr>"

text \<open>The batch query of the interface, in request order; an exception ends it.\<close>

fun getAuthDataBatch ::
  "('w, 'r) IAuthRepository \<Rightarrow> 'r \<Rightarrow> AuthRequest list \<Rightarrow>
   ('w, (exn + StreamAuthData option list) \<times> 'r) state" where
  "getAuthDataBatch I repo [] = ret (Inr [], repo)"
| "getAuthDataBatch I repo (q # qs) = do {
     r \<leftarrow> iar_getAuthData I repo (req_streamKey q) (req_clientId q) (req_authToken q);
     case r of
       (Inl e, repo) \<Rightarrow> ret (Inl e, repo)
     | (Inr d, repo) \<Rightarrow> do {
         rs \<leftarrow> getAuthDataBatch I repo qs;
         ret (map_sum id (\<lambda>ds. d # ds) (fst rs), snd rs)
       }
   }"

definition AUTH_SUCCESS :: int where "AUTH_SUCCESS = 0"
definition AUTH_DENIED :: int where "AUTH_DENIED = 1"
definition AUTH_RUNTIME_ERROR :: int where "AUTH_RUNTIME_ERROR = -1"

record AuthManager =
  am_shutdown :: bool

text \<open>The constructor refuses a missing repository.\<close>

definition new_AuthManager ::
  "('w, 'r) IAuthRepository option \<Rightarrow> exn + AuthManager \<times> ('w, 'r) IAuthRepository" where
  "new_AuthManager repo =
     (case repo of None \<Rightarrow> Inl InvalidArgument | Some I \<Rightarrow> Inr (\<lparr>am_shutdown = False\<rparr>, I))"

definition destroy_AuthManager :: "AuthManager \<Rightarrow> AuthManager" where
  "destroy_AuthManager am = am\<lparr>am_shutdown := True\<rparr>"

definition isShutdown :: "AuthManager \<Rightarrow> bool" where
  "isShutdown am = am_shutdown am"

definition performAuthLogic ::
  "('w, 'r) IAuthRepository \<Rightarrow> 'r \<Rightarrow> string \<Rightarrow> string \<Rightarrow> string \<Rightarrow> ('w, int \<times> 'r) state" where
  "performAuthLogic I repo sk cid tok = do {
     r \<leftarrow> iar_getAuthData I repo sk cid tok;
     ret (case fst r of
            Inr (Some authData) \<Rightarrow> if isAuthorized authData then AUTH_SUCCESS else AUTH_DENIED
          | Inr None \<Rightarrow> AUTH_DENIED
          | Inl _ \<Rightarrow> AUTH_RUNTIME_ERROR,
          snd r)
   }"

datatype pool_fate = Rejected string | Ran | Ran_late | Skipped

definition checkAuth ::
  "AuthManager \<Rightarrow> ('w, 'r) IAuthRepository \<Rightarrow> 'r \<Rightarrow> pool_fate \<Rightarrow> string \<Rightarrow> string \<Rightarrow> string \<Rightarrow>
   ('w, (exn + bool) \<times> 'r) state" where
  "checkAuth am I repo fate sk cid tok =
     (if am_shutdown am then ret (Inr False, repo)
      else
        (case fate of
           Rejected m \<Rightarrow> ret (Inl (RuntimeError m), repo)
         | Ran \<Rightarrow> do {
             r \<leftarrow> performAuthLogic I repo sk cid tok;
             ret (Inr (fst r = AUTH_SUCCESS), snd r)
           }
         | Ran_late \<Rightarrow> do {
             r \<leftarrow> performAuthLogic I repo sk cid tok;
             ret (Inr False, snd r)
           }
         | Skipped \<Rightarrow> ret (Inr False, repo)))"

text \<open>
  The asynchronous check: the callback runs on a worker with the code; \<^term>\<open>None\<close> says that it
  never runs.
\<close>

definition checkAuthAsync ::
  "AuthManager \<Rightarrow> ('w, 'r) IAuthRepository \<Rightarrow> 'r \<Rightarrow> pool_fate \<Rightarrow> AuthRequest \<Rightarrow>
   (int \<Rightarrow> ('w, 'b) state) \<Rightarrow> ('w, (exn + 'b option) \<times> 'r) state" where
  "checkAuthAsync am I repo fate req cb =
     (if am_shutdown am then ret (Inr None, repo)
      else
        (case fate of
           Rejected m \<Rightarrow> ret (Inl (RuntimeError m), repo)
         | Skipped \<Rightarrow> ret (Inr None, repo)
         | _ \<Rightarrow> do {
             r \<leftarrow> performAuthLogic I repo (req_streamKey req) (req_clientId req) (req_authToken req);
             x \<leftarrow> cb (fst r);
             ret (Inr (Some x), snd r)
           }))"

text \<open>The overload that takes the three strings; \<^term>\<open>None\<close> stands for an empty callback.\<close>

definition checkAuthAsync_strings ::
  "AuthManager \<Rightarrow> ('w, 'r) IAuthRepository \<Rightarrow> 'r \<Rightarrow> pool_fate \<Rightarrow> string \<Rightarrow> string \<Rightarrow> string \<Rightarrow>
   (int \<Rightarrow> ('w, 'b) state) option \<Rightarrow> ('w, (exn + 'b option) \<times> 'r) state" where
  "checkAuthAsync_strings am I repo fate sk cid tok cb =
     (case cb of
        None \<Rightarrow> ret (Inr None, repo)
      | Some f \<Rightarrow>
          if am_shutdown am then ret (Inr None, repo)
          else
            (case fate of
               Rejected m \<Rightarrow> ret (Inl (RuntimeError m), repo)
             | Skipped \<Rightarrow> ret (Inr None, repo)
             | _ \<Rightarrow> do {
                 r \<leftarrow> performAuthLogic I repo sk cid tok;
                 x \<leftarrow> f (fst r);
                 ret (Inr (Some x), snd r)
               }))"

lemma checkAuthAsync_overloads:
  "checkAuthAsync_strings am I repo fate sk cid tok (Some f) =
   checkAuthAsync am I repo fate \<lparr>req_streamKey = sk, req_clientId = cid, req_authToken = tok\<rparr> f"
  by (simp add: checkAuthAsync_strings_def checkAuthAsync_def cong: pool_fate.case_cong)

section \<open>No authorisation without the database\<close>

text \<open>A database over a fixed table, compared exactly, for the examples.\<close>

definition table_db :: "auth_row list \<Rightarrow> 'w auth_db" where
  "table_db T =
     \<lparr>db_select = (\<lambda>sk cid tok. ret
        (case find (\<lambda>(k, c, t, _). k = sk \<and> c = cid \<and> t = tok) T of
           None \<Rightarrow> NoRow | Some (_, c, _, a) \<Rightarrow> Row c a)),
      db_isConnected = ret True\<rparr>"

lemma table_db_backend:
  assumes "redis_server R view"
  shows "auth_backend R view (table_db T) (\<lambda>_. set T) (=)"
proof (intro auth_backend.intro assms auth_backend_axioms.intro)
  fix sk cid tok c a and w :: 'a
  assume "fst (run_state (db_select (table_db T) sk cid tok) w) = Row c a"
  then show "\<exists>k t. (k, c, t, a) \<in> set T \<and> sk = k \<and> cid = c \<and> tok = t"
    by (auto simp: table_db_def find_Some_iff split: option.splits dest!: nth_mem)
qed (simp_all add: table_db_def)

definition demo_rows :: "auth_row list" where
  "demo_rows = [(''v/live/s1'', ''c1'', ''tok'', True), (''v/live/s1'', ''c9'', ''old'', False)]"

interpretation mem_auth: auth_backend mem_redis mem_view "table_db demo_rows" "\<lambda>_. set demo_rows" "(=)"
  by (rule table_db_backend [OF mem.redis_server_axioms])

context auth_backend
begin

lemma performAuthLogic_both:
  assumes "json_roundtrip J" "cache_ok J H K"
    and "\<And>sk cid tok. authorised col_eq T sk cid tok \<Longrightarrow> H sk cid tok"
  shows "outcome (\<lambda>w. (view w, rows w)) (K, T)
    (performAuthLogic (hybrid_repository J (ready R) D) repo sk cid tok)
    (\<lambda>(code, _) (L, U). U = T \<and> cache_ok J H L \<and> (code = AUTH_SUCCESS \<longrightarrow> H sk cid tok))"
proof -
  have "outcome (\<lambda>w. (view w, rows w)) (K, T)
    (iar_getAuthData (hybrid_repository J (ready R) D) repo sk cid tok)
    (\<lambda>(r, _) (L, U). U = T \<and> cache_ok J H L
       \<and> (\<exists>x. r = Inr x \<and> (\<forall>d. x = Some d \<longrightarrow> isAuthorized d \<longrightarrow> H sk cid tok)))"
    unfolding hybrid_repository_def
    by simp (rule outcome_bind [OF getAuthData_both [OF assms]]; auto intro!: outcome_return)
  then show ?thesis
    unfolding performAuthLogic_def
    by (rule outcome_bind)
      (auto intro!: outcome_return simp: AUTH_DENIED_def AUTH_SUCCESS_def split: option.splits)
qed

end

text \<open>
  C5. No authorisation without the database: for any history \<open>H\<close> of authorisations that includes
  what the database authorises now, and a cache all of whose entries \<open>H\<close> justifies, a check that
  succeeds, from the cache or from the database, is for a stream, client and token in \<open>H\<close>; and the
  cache stays justified. This holds whatever Redis commands fail, and although the cache keys of
  different streams can coincide.
\<close>

theorem auth_success_justified:
  assumes "auth_backend R view D rows col_eq" "json_roundtrip J" "cache_ok J H K"
    and "\<And>sk cid tok. authorised col_eq T sk cid tok \<Longrightarrow> H sk cid tok"
  shows "outcome (\<lambda>w. (view w, rows w)) (K, T)
    (performAuthLogic (hybrid_repository J (ready R) D) repo sk cid tok)
    (\<lambda>(code, _) (L, U). U = T \<and> cache_ok J H L \<and> (code = AUTH_SUCCESS \<longrightarrow> H sk cid tok))"
  using auth_backend.performAuthLogic_both [OF assms(1), OF assms(2-4)] .

definition demo_json :: json_lib where
  "demo_json = table_json [(to_json (default_auth\<lparr>streamKey := ''v/live/s1'', auth_clientId := ''c1'',
     isAuthorized := True, authToken := ''tok''\<rparr>), ''{1}'')]"

lemma demo_json_roundtrip: "json_roundtrip demo_json"
  unfolding demo_json_def by (rule table_json_roundtrip) simp

theorem auth_success_justified_witness:
  "outcome (\<lambda>w. (mem_view w, set demo_rows)) (mem_view [], set demo_rows)
    (performAuthLogic (hybrid_repository demo_json (ready mem_redis) (table_db demo_rows))
      (new_HybridAuthRepository (ready mem_redis)) ''v/live/s1'' ''c1'' ''tok'')
    (\<lambda>(code, _) (L, U). U = set demo_rows
       \<and> cache_ok demo_json (authorised (=) (set demo_rows)) L
       \<and> (code = AUTH_SUCCESS \<longrightarrow> authorised (=) (set demo_rows) ''v/live/s1'' ''c1'' ''tok''))"
proof -
  have c: "cache_ok demo_json (authorised (=) (set demo_rows)) (mem_view [])"
    by (simp add: cache_ok_def mem_view_def)
  show ?thesis
    by (rule auth_success_justified [OF mem_auth.auth_backend_axioms demo_json_roundtrip c])
qed

text \<open>
  C22. A cached record answers only the client and token it was written for: a hit with another
  token, or with the record of another client under a coinciding key, is refused, counted as a
  validation failure and removed from the cache.
\<close>

theorem cache_mismatch_refused:
  assumes "redis_reliable R view" "K (buildCacheKey sk cid) = Some (RStr s, t)"
    and "decode_cached J s = Some d" "authToken d \<noteq> tok \<or> auth_clientId d \<noteq> cid"
  shows "yields view K (getAuthData J (ready R) D repo sk cid tok)
    (None, repo\<lparr>cacheHits := cacheHits repo + 1, validationFailures := validationFailures repo + 1\<rparr>)
    (K(buildCacheKey sk cid := None))"
proof -
  have "yields view K (getString (ready R) (buildCacheKey sk cid)) (Some s) K"
    using redis_reliable.getString_ok [OF assms(1), of K "buildCacheKey sk cid"] assms(2) by simp
  then have hit: "yields view K (getAuthDataFromCacheByKey J (ready R) (buildCacheKey sk cid)) (Some d) K"
    unfolding getAuthDataFromCacheByKey_def using assms(3) by (auto intro!: yields_bind)
  show ?thesis
    unfolding getAuthData_def tryGetFromCache_def Let_def
    using assms(4) by (auto intro!: yields_bind [OF hit] yields_bind [OF redis_reliable.keyDel_ok [OF assms(1)]])
qed

theorem cache_mismatch_refused_witness:
  "yields mem_view [''auth_data:v/live/s1:c1'' \<mapsto> (RStr ''{1}'', Some 300)]
    (getAuthData demo_json (ready mem_redis) (table_db demo_rows)
      (new_HybridAuthRepository (ready mem_redis)) ''v/live/s1'' ''c1'' ''wrong'')
    (None, (new_HybridAuthRepository (ready mem_redis))\<lparr>cacheHits := 1, validationFailures := 1\<rparr>)
    Map.empty"
proof -
  have k: "buildCacheKey ''v/live/s1'' ''c1'' = ''auth_data:v/live/s1:c1''"
    by (simp add: buildCacheKey_def)
  have d: "decode_cached demo_json ''{1}'' = Some (default_auth\<lparr>streamKey := ''v/live/s1'',
     auth_clientId := ''c1'', isAuthorized := True, authToken := ''tok''\<rparr>)"
    by (simp add: decode_cached_def demo_json_def table_json_def from_json_to_json default_auth_def
        int64_range_def)
  show ?thesis
    using cache_mismatch_refused [OF mem.redis_reliable_axioms, of "[''auth_data:v/live/s1:c1'' \<mapsto> (RStr ''{1}'', Some 300)]"
        "''v/live/s1''" "''c1''" "''{1}''" "Some 300" demo_json _ "''wrong''" "table_db demo_rows"
        "new_HybridAuthRepository (ready mem_redis)", OF _ d]
    by (simp add: k new_HybridAuthRepository_def default_auth_def)
qed

text \<open>
  The JSON form of authentication data reads back unchanged: for a record with ordered metadata,
  a 64-bit expiry time and a stream key, \<open>deserialize\<close> inverts \<open>serialize\<close>.
\<close>

theorem auth_data_roundtrip:
  assumes "json_roundtrip J" "json_dump J (to_json d) = Some s" "s \<noteq> ''''"
    and "sorted_wrt (<) (map fst (metadata d))" "int64_range (expireTime d)" "streamKey d \<noteq> ''''"
  shows "auth_deserialize J (auth_serialize J d) = Some d"
proof -
  have "json_parse J s = Some (to_json d)"
    using assms(1,2) to_json_wf [OF assms(4)] by (simp add: json_roundtrip_def)
  then show ?thesis
    using assms by (simp add: auth_deserialize_def auth_serialize_def from_json_to_json)
qed

theorem auth_data_roundtrip_witness:
  "auth_deserialize demo_json (auth_serialize demo_json (default_auth\<lparr>streamKey := ''v/live/s1'',
     auth_clientId := ''c1'', isAuthorized := True, authToken := ''tok''\<rparr>))
   = Some (default_auth\<lparr>streamKey := ''v/live/s1'', auth_clientId := ''c1'', isAuthorized := True,
       authToken := ''tok''\<rparr>)"
  by (rule auth_data_roundtrip [OF demo_json_roundtrip, where s = "''{1}''"])
    (simp_all add: demo_json_def table_json_def default_auth_def int64_range_def)

end
