(* ===== verification/Node_Config.thy ===== *)
theory Node_Config
  imports Json_Api "HOL-Library.Word" "HOL-Library.Multiset"
begin

text \<open>
  \<open>NodeConfig\<close> (\<open>include/NodeConfig.h\<close>, \<open>src/util/NodeConfig.cpp\<close>): the groups of media nodes,
  their loading from a JSON file with validation, and the selection of an endpoint. The file is the
  argument \<open>contents\<close>, \<^term>\<open>None\<close> when it cannot be opened; the random index of
  \<open>getRandomEndpoint\<close> is what the distribution drew.
\<close>

section \<open>Data\<close>

record NodeEndpoint =
  host :: string
  port :: int

definition endpoint_isValid :: "NodeEndpoint \<Rightarrow> bool" where
  "endpoint_isValid e \<longleftrightarrow> host e \<noteq> '''' \<and> 0 < port e \<and> port e \<le> 65535"

definition endpoint_toString :: "NodeEndpoint \<Rightarrow> string" where
  "endpoint_toString e = host e @ '':'' @ to_string (port e)"

datatype Category = RTMP_SRT | HTTP_HLS | WEBRTC | UNKNOWN

record ValidationOptions =
  allow_empty_endpoints :: bool
  strict_port_rang :: bool
  require_valid_hosts :: bool

definition default_options :: ValidationOptions where
  "default_options =
     \<lparr>allow_empty_endpoints = False, strict_port_rang = True, require_valid_hosts = True\<rparr>"

record NodeConfig =
  rtmp_srt :: "NodeEndpoint list"
  http_hls :: "NodeEndpoint list"
  webrtc :: "NodeEndpoint list"
  rr_rtmp :: "64 word"
  rr_http :: "64 word"
  rr_webrtc :: "64 word"

definition new_NodeConfig :: NodeConfig where
  "new_NodeConfig =
     \<lparr>rtmp_srt = [], http_hls = [], webrtc = [], rr_rtmp = 0, rr_http = 0, rr_webrtc = 0\<rparr>"

text \<open>
  The copy constructor and the assignment, written by hand because atomics do not copy: the lists
  and the present values of the counters are carried over.
\<close>

definition copy_NodeConfig :: "NodeConfig \<Rightarrow> NodeConfig" where
  "copy_NodeConfig other =
     \<lparr>rtmp_srt = rtmp_srt other, http_hls = http_hls other, webrtc = webrtc other,
      rr_rtmp = rr_rtmp other, rr_http = rr_http other, rr_webrtc = rr_webrtc other\<rparr>"

definition assign_NodeConfig :: "NodeConfig \<Rightarrow> NodeConfig \<Rightarrow> NodeConfig" where
  "assign_NodeConfig self other =
     self\<lparr>rtmp_srt := rtmp_srt other, http_hls := http_hls other, webrtc := webrtc other,
          rr_rtmp := rr_rtmp other, rr_http := rr_http other, rr_webrtc := rr_webrtc other\<rparr>"

lemma copy_NodeConfig [simp]: "copy_NodeConfig other = other"
  by (simp add: copy_NodeConfig_def)

section \<open>Loading\<close>

text \<open>A JSON number (or truth value) read as a 32-bit \<open>int\<close>.\<close>

definition wrap32 :: "int \<Rightarrow> int" where
  "wrap32 i = (let u = i mod 2 ^ 32 in if u < 2 ^ 31 then u else u - 2 ^ 32)"

definition json_get_int32 :: "json \<Rightarrow> int option" where
  "json_get_int32 j =
     (case j of
        JBool b \<Rightarrow> Some (if b then 1 else 0)
      | _ \<Rightarrow> map_option wrap32 (json_get_int j))"

definition endpoint_from_json :: "json \<Rightarrow> NodeEndpoint option" where
  "endpoint_from_json j = do {
     h \<leftarrow> json_find j ''host'';
     h \<leftarrow> json_get_string h;
     p \<leftarrow> json_find j ''port'';
     p \<leftarrow> json_get_int32 p;
     Some \<lparr>host = h, port = p\<rparr>
   }"

definition endpoints_from_json :: "json \<Rightarrow> NodeEndpoint list option" where
  "endpoints_from_json j = (case j of JArr js \<Rightarrow> those (map endpoint_from_json js) | _ \<Rightarrow> None)"

definition fill_if_present :: "json \<Rightarrow> string \<Rightarrow> NodeEndpoint list \<Rightarrow> exn + NodeEndpoint list" where
  "fill_if_present j key target =
     (case json_find j key of
        None \<Rightarrow> Inr target
      | Some JNull \<Rightarrow> Inr target
      | Some val \<Rightarrow> (case endpoints_from_json val of
           Some es \<Rightarrow> Inr es
         | None \<Rightarrow> Inl (RuntimeError (''Config parse error at '' @ key))))"

fun validate_endpoints :: "ValidationOptions \<Rightarrow> string \<Rightarrow> nat \<Rightarrow> NodeEndpoint list \<Rightarrow> exn + unit" where
  "validate_endpoints opts name i [] = Inr ()"
| "validate_endpoints opts name i (ep # eps) =
     (let ctxt = name @ ''['' @ to_string (int i) @ '']('' @ host ep @ '')'' in
      if require_valid_hosts opts \<and> (host ep = '''' \<or> host ep = ''0.0.0.0'')
      then Inl (RuntimeError (''NodeConfig Validation: Invalid or unsafe host in '' @ ctxt))
      else if strict_port_rang opts \<and> (port ep \<le> 0 \<or> port ep > 65535)
      then Inl (RuntimeError (''NodeConfig Validation: Port out of range in '' @ ctxt))
      else validate_endpoints opts name (Suc i) eps)"

definition validate_group :: "ValidationOptions \<Rightarrow> NodeEndpoint list \<Rightarrow> string \<Rightarrow> exn + unit" where
  "validate_group opts eps name =
     (if \<not> allow_empty_endpoints opts \<and> eps = []
      then Inl (RuntimeError (''NodeConfig Validation: Category '' @ [CHR 0x27] @ name @ [CHR 0x27] @ '' cannot be empty.''))
      else validate_endpoints opts name 0 eps)"

definition sum_bind :: "'e + 'a \<Rightarrow> ('a \<Rightarrow> 'e + 'b) \<Rightarrow> 'e + 'b" where
  "sum_bind x f = (case x of Inl e \<Rightarrow> Inl e | Inr a \<Rightarrow> f a)"

definition fromJsonFile ::
  "json_lib \<Rightarrow> string \<Rightarrow> string option \<Rightarrow> ValidationOptions \<Rightarrow> exn + NodeConfig" where
  "fromJsonFile J filepath contents opts =
     (case contents of
        None \<Rightarrow> Inl (RuntimeError (''NodeConfig: Could not open file at '' @ filepath))
      | Some text \<Rightarrow>
          (case json_parse J text of
             None \<Rightarrow> Inl JsonException
           | Some j \<Rightarrow>
               sum_bind (fill_if_present j ''rtmp_srt'' []) (\<lambda>r.
               sum_bind (fill_if_present j ''http_hls'' []) (\<lambda>h.
               sum_bind (fill_if_present j ''webrtc'' []) (\<lambda>w.
               sum_bind (validate_group opts r ''rtmp_srt'') (\<lambda>_.
               sum_bind (validate_group opts h ''http_hls'') (\<lambda>_.
               sum_bind (validate_group opts w ''webrtc'') (\<lambda>_.
                 Inr (new_NodeConfig\<lparr>rtmp_srt := r, http_hls := h, webrtc := w\<rparr>)))))))))"

section \<open>Selection\<close>

fun getEndpointsByCat :: "NodeConfig \<Rightarrow> Category \<Rightarrow> NodeEndpoint list" where
  "getEndpointsByCat cfg RTMP_SRT = rtmp_srt cfg"
| "getEndpointsByCat cfg HTTP_HLS = http_hls cfg"
| "getEndpointsByCat cfg WEBRTC = webrtc cfg"
| "getEndpointsByCat cfg UNKNOWN = []"

definition getRoundRobinEndpoint :: "NodeConfig \<Rightarrow> Category \<Rightarrow> (exn + NodeEndpoint) \<times> NodeConfig" where
  "getRoundRobinEndpoint cfg cat =
     (let endpoints = getEndpointsByCat cfg cat; size = length endpoints in
      if size = 0 then (Inl (RuntimeError ''No endpoints available for category''), cfg)
      else
        (case cat of
           RTMP_SRT \<Rightarrow> (Inr (endpoints ! (unat (rr_rtmp cfg) mod size)), cfg\<lparr>rr_rtmp := rr_rtmp cfg + 1\<rparr>)
         | HTTP_HLS \<Rightarrow> (Inr (endpoints ! (unat (rr_http cfg) mod size)), cfg\<lparr>rr_http := rr_http cfg + 1\<rparr>)
         | WEBRTC \<Rightarrow> (Inr (endpoints ! (unat (rr_webrtc cfg) mod size)), cfg\<lparr>rr_webrtc := rr_webrtc cfg + 1\<rparr>)
         | UNKNOWN \<Rightarrow> (Inl (RuntimeError ''Invalid category''), cfg)))"

definition stringToCategory :: "string \<Rightarrow> Category" where
  "stringToCategory category =
     (let norm = map to_lower category in
      if norm = ''rtmp'' \<or> norm = ''srt'' \<or> norm = ''rtmp_srt'' then RTMP_SRT
      else if norm = ''http'' \<or> norm = ''hls'' \<or> norm = ''http_hls'' then HTTP_HLS
      else if norm = ''webrtc'' then WEBRTC
      else UNKNOWN)"

definition getRandomEndpoint :: "NodeConfig \<Rightarrow> Category \<Rightarrow> nat \<Rightarrow> exn + NodeEndpoint" where
  "getRandomEndpoint cfg cat drawn =
     (let endpoints = getEndpointsByCat cfg cat; size = length endpoints in
      if size = 0 then Inl (RuntimeError ''No endpoints available for the specified category.'')
      else Inr (endpoints ! drawn))"

section \<open>Loaded configurations are valid\<close>

lemma sum_bind_Inr: "sum_bind x f = Inr b \<longleftrightarrow> (\<exists>a. x = Inr a \<and> f a = Inr b)"
  by (cases x) (simp_all add: sum_bind_def)

lemma validate_endpoints_Inr:
  "validate_endpoints opts name i eps = Inr () \<longleftrightarrow>
     (\<forall>ep \<in> set eps. (require_valid_hosts opts \<longrightarrow> host ep \<noteq> '''' \<and> host ep \<noteq> ''0.0.0.0'')
        \<and> (strict_port_rang opts \<longrightarrow> 0 < port ep \<and> port ep \<le> 65535))"
  by (induction opts name i eps rule: validate_endpoints.induct) (auto simp: Let_def)

lemma validate_group_Inr:
  "validate_group opts eps name = Inr u \<longleftrightarrow>
     (allow_empty_endpoints opts \<or> eps \<noteq> []) \<and> validate_endpoints opts name 0 eps = Inr ()"
  by (auto simp: validate_group_def)

text \<open>
  A configuration that loads is usable: with the default options every group is non-empty and
  every endpoint has a host other than the wildcard address and a port from 1 to 65535.
\<close>

theorem fromJsonFile_valid:
  assumes "fromJsonFile J filepath contents default_options = Inr cfg" "cat \<noteq> UNKNOWN"
  shows "getEndpointsByCat cfg cat \<noteq> []
    \<and> list_all (\<lambda>e. endpoint_isValid e \<and> host e \<noteq> ''0.0.0.0'') (getEndpointsByCat cfg cat)"
  using assms
  by (cases cat)
    (auto simp: fromJsonFile_def sum_bind_Inr validate_group_Inr validate_endpoints_Inr default_options_def
      list_all_iff endpoint_isValid_def split: option.splits)

definition demo_nodes_json :: json where
  "demo_nodes_json =
     (let node = (\<lambda>h p. JObj [(''host'', JStr h), (''port'', JInt p)]) in
      JObj [(''http_hls'', JArr [node ''10.0.1.1'' 80]),
            (''rtmp_srt'', JArr [node ''10.0.0.1'' 1935, node ''10.0.0.2'' 1935]),
            (''webrtc'', JArr [node ''10.0.2.1'' 8000])])"

definition demo_nodes :: NodeConfig where
  "demo_nodes = new_NodeConfig\<lparr>
     rtmp_srt := [\<lparr>host = ''10.0.0.1'', port = 1935\<rparr>, \<lparr>host = ''10.0.0.2'', port = 1935\<rparr>],
     http_hls := [\<lparr>host = ''10.0.1.1'', port = 80\<rparr>], webrtc := [\<lparr>host = ''10.0.2.1'', port = 8000\<rparr>]\<rparr>"

lemma demo_nodes_load:
  "fromJsonFile (table_json [(demo_nodes_json, ''{nodes}'')]) ''nodes.json'' (Some ''{nodes}'') default_options
   = Inr demo_nodes"
  by (simp add: fromJsonFile_def table_json_def demo_nodes_json_def fill_if_present_def json_find_def
      endpoints_from_json_def endpoint_from_json_def json_get_string_def json_get_int32_def
      json_get_int_def wrap32_def sum_bind_def validate_group_def default_options_def demo_nodes_def Let_def)

theorem fromJsonFile_valid_witness:
  "getEndpointsByCat demo_nodes RTMP_SRT \<noteq> []
   \<and> list_all (\<lambda>e. endpoint_isValid e \<and> host e \<noteq> ''0.0.0.0'') (getEndpointsByCat demo_nodes RTMP_SRT)"
  by (rule fromJsonFile_valid [OF demo_nodes_load]) simp

section \<open>Round robin\<close>

text \<open>As long as the 64-bit counter does not wrap, a window of calls walks the list once around.\<close>

lemma rotation_window:
  assumes "unat (k :: 64 word) + length xs < 2 ^ 64"
  shows "map (\<lambda>i. xs ! (unat (k + of_nat i) mod length xs)) [0..<length xs]
    = rotate (unat k mod length xs) xs"
proof (rule nth_equalityI)
  fix i assume "i < length (map (\<lambda>i. xs ! (unat (k + of_nat i) mod length xs)) [0..<length xs])"
  then have i: "i < length xs" by simp
  have "unat (of_nat i :: 64 word) = i"
    using i assms by (simp add: unat_of_nat)
  then have "unat (k + of_nat i) = unat k + i"
    using i assms by (subst unat_plus_simple [THEN iffD1]) (simp_all add: word_le_nat_alt unat_word_ariths)
  then show "map (\<lambda>i. xs ! (unat (k + of_nat i) mod length xs)) [0..<length xs] ! i
      = rotate (unat k mod length xs) xs ! i"
    using i by (simp add: nth_rotate mod_add_left_eq add.commute mod_add_right_eq)
qed simp

lemma mset_rotate: "mset (rotate n xs) = mset xs"
  by (metis append_take_drop_id mset_append rotate_drop_take union_commute)

text \<open>The endpoints of consecutive calls.\<close>

fun round_robin :: "nat \<Rightarrow> NodeConfig \<Rightarrow> Category \<Rightarrow> (exn + NodeEndpoint) list" where
  "round_robin 0 cfg cat = []"
| "round_robin (Suc n) cfg cat =
     (let r = getRoundRobinEndpoint cfg cat in fst r # round_robin n (snd r) cat)"

definition rr_counter :: "NodeConfig \<Rightarrow> Category \<Rightarrow> 64 word" where
  "rr_counter cfg cat =
     (case cat of RTMP_SRT \<Rightarrow> rr_rtmp cfg | HTTP_HLS \<Rightarrow> rr_http cfg | WEBRTC \<Rightarrow> rr_webrtc cfg | UNKNOWN \<Rightarrow> 0)"

lemma round_robin_picks:
  assumes "getEndpointsByCat cfg cat \<noteq> []"
  shows "round_robin n cfg cat = map (\<lambda>i. Inr (getEndpointsByCat cfg cat !
     (unat (rr_counter cfg cat + of_nat i) mod length (getEndpointsByCat cfg cat)))) [0..<n]"
  using assms
proof (induction n arbitrary: cfg)
  case (Suc n)
  let ?cfg = "snd (getRoundRobinEndpoint cfg cat)"
  have same: "getEndpointsByCat ?cfg cat = getEndpointsByCat cfg cat"
    using Suc.prems by (cases cat) (auto simp: getRoundRobinEndpoint_def Let_def)
  have step: "rr_counter ?cfg cat = rr_counter cfg cat + 1"
    using Suc.prems by (cases cat) (auto simp: getRoundRobinEndpoint_def Let_def rr_counter_def)
  have head: "fst (getRoundRobinEndpoint cfg cat) = Inr (getEndpointsByCat cfg cat !
     (unat (rr_counter cfg cat) mod length (getEndpointsByCat cfg cat)))"
    using Suc.prems by (cases cat) (auto simp: getRoundRobinEndpoint_def Let_def rr_counter_def)
  show ?case
    using Suc.IH [of ?cfg] Suc.prems
    by (simp add: same step head Let_def upt_conv_Cons map_Suc_upt [symmetric] comp_def algebra_simps
        del: upt_Suc)
qed simp

text \<open>
  C23. Round robin is fair: as long as the 64-bit counter does not wrap, as many consecutive calls as
  a group has endpoints return each endpoint of the group exactly as often as the group lists it.
\<close>

theorem round_robin_fair:
  assumes "getEndpointsByCat cfg cat \<noteq> []"
    and "unat (rr_counter cfg cat) + length (getEndpointsByCat cfg cat) < 2 ^ 64"
  shows "mset (round_robin (length (getEndpointsByCat cfg cat)) cfg cat)
    = mset (map Inr (getEndpointsByCat cfg cat))"
proof -
  let ?xs = "getEndpointsByCat cfg cat"
  have "round_robin (length ?xs) cfg cat = map Inr (rotate (unat (rr_counter cfg cat) mod length ?xs) ?xs)"
    unfolding round_robin_picks [OF assms(1)] rotation_window [OF assms(2), symmetric] by simp
  then show ?thesis by (simp add: mset_rotate)
qed

theorem round_robin_fair_witness:
  "mset (round_robin 2 demo_nodes RTMP_SRT) = mset (map Inr (getEndpointsByCat demo_nodes RTMP_SRT))"
proof -
  have len: "length (getEndpointsByCat demo_nodes RTMP_SRT) = 2" "rr_counter demo_nodes RTMP_SRT = 0"
    by (simp_all add: demo_nodes_def new_NodeConfig_def rr_counter_def)
  have "getEndpointsByCat demo_nodes RTMP_SRT \<noteq> []" by (simp add: demo_nodes_def)
  from round_robin_fair [OF this, unfolded len] show ?thesis by simp
qed

end
