(* ===== verification/Scheduler.thy ===== *)
theory Scheduler
  imports Registry_Properties Auth_Manager Node_Config
begin

text \<open>
  \<open>StreamTaskScheduler\<close> (\<open>include/StreamTaskScheduler.h\<close>, \<open>src/scheduler/StreamTaskScheduler.cpp\<close>):
  the publish and play requests, their ends, node selection, task creation, the time-out clean-up
  cycle and the counters. The state manager is reached through the interface record, the
  authentication through \<open>AuthManager\<close>. The two clock readings of a request (creation of the task in
  nanoseconds, registration in milliseconds) are arguments, as is the fate of the task handed to the
  pool. The result of a request is \<^term>\<open>None\<close> when the caller's callback never runs.
\<close>

section \<open>Data\<close>

datatype SchedulerError =
    SUCCESS | ALREADY_PUBLISHING | NO_PUBLISHER | AUTH_FAILED | STATE_STORE_ERROR | INTERNAL_ERROR

record SchedulerResult =
  sr_error :: SchedulerError
  sr_task :: "StreamTask option"
  sr_message :: string

definition isSuccess :: "SchedulerResult \<Rightarrow> bool" where
  "isSuccess r \<longleftrightarrow> sr_error r = SUCCESS"

text \<open>The messages of the program are UTF-8 text; these are their bytes.\<close>

definition bytes :: "nat list \<Rightarrow> string" where "bytes ns = map char_of ns"

definition msg_auth_refused :: string where
  "msg_auth_refused = bytes [233, 137, 180, 230, 157, 131, 230, 139, 146, 231, 187, 157]"
definition msg_already :: string where
  "msg_already = bytes [232, 175, 165, 230, 181, 129, 229, 183, 178, 229, 156, 168, 230, 142, 168, 233, 128, 129, 228, 184, 173]"
definition msg_pub_ok :: string where
  "msg_pub_ok = bytes [230, 142, 168, 230, 181, 129, 230, 142, 136, 230, 157, 131, 230, 136, 144, 229, 138, 159]"
definition msg_no_pub :: string where
  "msg_no_pub = bytes [230, 137, 190, 228, 184, 141, 229, 136, 176, 230, 180, 187, 232, 183, 131, 230, 142, 168, 230, 181, 129, 231, 171, 175]"
definition msg_store :: string where
  "msg_store = bytes [231, 138, 182, 230, 128, 129, 230, 179, 168, 229, 134, 140, 229, 164, 177, 232, 180, 165]"
definition msg_play_ok :: string where
  "msg_play_ok = bytes [230, 146, 173, 230, 148, 190, 230, 142, 136, 230, 157, 131, 230, 136, 144, 229, 138, 159]"
definition msg_missing :: string where
  "msg_missing = bytes [229, 143, 130, 230, 149, 176, 231, 188, 186, 229, 164, 177]"

record Scheduler =
  node_config :: NodeConfig
  cleanup_interval :: int
  task_timeout :: int
  sched_running :: bool
  nodeIndex :: "64 word"
  nextTaskId :: "64 word"
  totalPublishReq :: "64 word"
  successPub :: "64 word"
  totalPlayReq :: "64 word"
  successPlay :: "64 word"
  authFail :: "64 word"
  tasksCleaned :: "64 word"

definition new_Scheduler :: "NodeConfig \<Rightarrow> int \<Rightarrow> int \<Rightarrow> Scheduler" where
  "new_Scheduler nodes interval timeout =
     \<lparr>node_config = copy_NodeConfig nodes, cleanup_interval = interval, task_timeout = timeout, sched_running = False,
      nodeIndex = 0, nextTaskId = 1000, totalPublishReq = 0, successPub = 0, totalPlayReq = 0,
      successPlay = 0, authFail = 0, tasksCleaned = 0\<rparr>"

text \<open>\<open>start\<close> and \<open>stop\<close>; the result says whether the clean-up thread is started, or stopped and joined.\<close>

definition start :: "Scheduler \<Rightarrow> bool \<times> Scheduler" where
  "start sc = (\<not> sched_running sc, sc\<lparr>sched_running := True\<rparr>)"

definition stop :: "Scheduler \<Rightarrow> bool \<times> Scheduler" where
  "stop sc = (sched_running sc, sc\<lparr>sched_running := False\<rparr>)"

section \<open>Helpers\<close>

definition selectBestNode :: "StreamProtocol \<Rightarrow> Scheduler \<Rightarrow> (string \<times> int) \<times> Scheduler" where
  "selectBestNode proto sc =
     (let nodes = (if proto = RTMP \<or> proto = SRT then rtmp_srt (node_config sc)
                   else http_hls (node_config sc)) in
      if nodes = [] then ((''127.0.0.1'', 1935), sc)
      else
        let node = nodes ! (unat (nodeIndex sc) mod length nodes)
        in ((host node, port node), sc\<lparr>nodeIndex := nodeIndex sc + 1\<rparr>))"

definition createTask ::
  "string \<Rightarrow> string \<Rightarrow> string \<Rightarrow> StreamType \<Rightarrow> StreamProtocol \<Rightarrow> string \<Rightarrow> int \<Rightarrow> int \<Rightarrow> Scheduler \<Rightarrow>
   StreamTask \<times> Scheduler" where
  "createTask s c tok type proto ip prt now_ns sc =
     (default_task\<lparr> task_id := nextTaskId sc, stream_name := s, client_id := c, auth_token := tok,
        task_type := type, protocol := proto, server_ip := ip, server_port := prt,
        start_time := now_ns, last_active_time := now_ns \<rparr>,
      sc\<lparr>nextTaskId := nextTaskId sc + 1\<rparr>)"

definition validateRequest :: "string \<Rightarrow> string \<Rightarrow> string \<Rightarrow> SchedulerResult option" where
  "validateRequest s c tok =
     (if s = '''' \<or> c = '''' \<or> tok = ''''
      then Some \<lparr>sr_error = INTERNAL_ERROR, sr_task = None, sr_message = msg_missing\<rparr>
      else None)"

definition failed :: "SchedulerError \<Rightarrow> string \<Rightarrow> SchedulerResult" where
  "failed e m = \<lparr>sr_error = e, sr_task = None, sr_message = m\<rparr>"

section \<open>Publish\<close>

text \<open>The callback the scheduler gives to the authentication, with the code it receives.\<close>

definition onPublish_auth ::
  "'w IStreamStateManager \<Rightarrow> int \<Rightarrow> int \<Rightarrow> string \<Rightarrow> string \<Rightarrow> string \<Rightarrow> StreamProtocol \<Rightarrow> Scheduler \<Rightarrow> int \<Rightarrow>
   ('w, SchedulerResult \<times> Scheduler) state" where
  "onPublish_auth M now_ns now_ms s c tok proto sc code =
     (if code \<noteq> 0 then ret (failed AUTH_FAILED msg_auth_refused, sc\<lparr>authFail := authFail sc + 1\<rparr>)
      else
        let (node, sc) = selectBestNode proto sc;
            (task, sc) = createTask s c tok PUBLISHER proto (fst node) (snd node) now_ns sc
        in do {
          _ \<leftarrow> ism_getPublisherTask M s;
          registered \<leftarrow> ism_registerTask M now_ms task;
          ret (case registered of
                 Inl _ \<Rightarrow> (failed INTERNAL_ERROR ''Internal error'', sc)
               | Inr False \<Rightarrow> (failed ALREADY_PUBLISHING msg_already, sc)
               | Inr True \<Rightarrow> (\<lparr>sr_error = SUCCESS, sr_task = Some task, sr_message = msg_pub_ok\<rparr>,
                             sc\<lparr>successPub := successPub sc + 1\<rparr>))
        })"

definition onPublish ::
  "'w IStreamStateManager \<Rightarrow> AuthManager \<Rightarrow> ('w, 'r) IAuthRepository \<Rightarrow> 'r \<Rightarrow> pool_fate \<Rightarrow> int \<Rightarrow> int \<Rightarrow>
   string \<Rightarrow> string \<Rightarrow> string \<Rightarrow> StreamProtocol \<Rightarrow> Scheduler \<Rightarrow>
   ('w, (exn + SchedulerResult option) \<times> Scheduler \<times> 'r) state" where
  "onPublish M am I repo fate now_ns now_ms s c tok proto sc0 =
     (let sc = sc0\<lparr>totalPublishReq := totalPublishReq sc0 + 1\<rparr> in
      (case validateRequest s c tok of
         Some res \<Rightarrow> ret (Inr (Some res), sc, repo)
       | None \<Rightarrow> do {
           r \<leftarrow> checkAuthAsync am I repo fate \<lparr>req_streamKey = s, req_clientId = c, req_authToken = tok\<rparr>
                  (onPublish_auth M now_ns now_ms s c tok proto sc);
           ret (case r of
                  (Inl e, repo) \<Rightarrow> (Inl e, sc, repo)
                | (Inr None, repo) \<Rightarrow> (Inr None, sc, repo)
                | (Inr (Some (res, sc)), repo) \<Rightarrow> (Inr (Some res), sc, repo))
         }))"

definition onPublishDone :: "'w IStreamStateManager \<Rightarrow> string \<Rightarrow> string \<Rightarrow> ('w, unit) call" where
  "onPublishDone M s c = do {
     task_opt \<leftarrow> ism_getTask M s c;
     case task_opt of
       Some task \<Rightarrow> if task_type task = PUBLISHER then ism_deregisterAllMembers M s else ok ()
     | None \<Rightarrow> ok ()
   }"

section \<open>Play\<close>

definition onPlay_auth ::
  "'w IStreamStateManager \<Rightarrow> int \<Rightarrow> int \<Rightarrow> string \<Rightarrow> string \<Rightarrow> string \<Rightarrow> StreamProtocol \<Rightarrow> Scheduler \<Rightarrow> int \<Rightarrow>
   ('w, SchedulerResult \<times> Scheduler) state" where
  "onPlay_auth M now_ns now_ms s c tok proto sc code =
     (if code \<noteq> 0 then ret (failed AUTH_FAILED msg_auth_refused, sc\<lparr>authFail := authFail sc + 1\<rparr>)
      else do {
        pub \<leftarrow> ism_getPublisherTask M s;
        case pub of
          None \<Rightarrow> ret (failed NO_PUBLISHER msg_no_pub, sc)
        | Some p \<Rightarrow>
            let (task, sc) = createTask s c tok PLAYER proto (server_ip p) (server_port p) now_ns sc
            in do {
              registered \<leftarrow> ism_registerTask M now_ms task;
              ret (case registered of
                     Inl _ \<Rightarrow> (failed INTERNAL_ERROR ''Internal error'', sc)
                   | Inr False \<Rightarrow> (failed STATE_STORE_ERROR msg_store, sc)
                   | Inr True \<Rightarrow> (\<lparr>sr_error = SUCCESS, sr_task = Some task, sr_message = msg_play_ok\<rparr>,
                                 sc\<lparr>successPlay := successPlay sc + 1\<rparr>))
            }
      })"

definition onPlay ::
  "'w IStreamStateManager \<Rightarrow> AuthManager \<Rightarrow> ('w, 'r) IAuthRepository \<Rightarrow> 'r \<Rightarrow> pool_fate \<Rightarrow> int \<Rightarrow> int \<Rightarrow>
   string \<Rightarrow> string \<Rightarrow> string \<Rightarrow> StreamProtocol \<Rightarrow> Scheduler \<Rightarrow>
   ('w, (exn + SchedulerResult option) \<times> Scheduler \<times> 'r) state" where
  "onPlay M am I repo fate now_ns now_ms s c tok proto sc0 =
     (let sc = sc0\<lparr>totalPlayReq := totalPlayReq sc0 + 1\<rparr> in
      (case validateRequest s c tok of
         Some res \<Rightarrow> ret (Inr (Some res), sc, repo)
       | None \<Rightarrow> do {
           r \<leftarrow> checkAuthAsync am I repo fate \<lparr>req_streamKey = s, req_clientId = c, req_authToken = tok\<rparr>
                  (onPlay_auth M now_ns now_ms s c tok proto sc);
           ret (case r of
                  (Inl e, repo) \<Rightarrow> (Inl e, sc, repo)
                | (Inr None, repo) \<Rightarrow> (Inr None, sc, repo)
                | (Inr (Some (res, sc)), repo) \<Rightarrow> (Inr (Some res), sc, repo))
         }))"

definition onPlayDone :: "'w IStreamStateManager \<Rightarrow> string \<Rightarrow> string \<Rightarrow> ('w, bool) call" where
  "onPlayDone M s c = ism_deregisterTask M s c"

section \<open>Clean-up\<close>

definition died_streams :: "StreamTask list \<Rightarrow> string list" where
  "died_streams ts = sort (remdups (map stream_name (filter (\<lambda>t. task_type t = PUBLISHER) ts)))"

fun clear_streams :: "'w IStreamStateManager \<Rightarrow> string list \<Rightarrow> ('w, unit) call" where
  "clear_streams M [] = ok ()"
| "clear_streams M (s # ss) = bindE (ism_deregisterAllMembers M s) (\<lambda>_. clear_streams M ss)"

text \<open>
  One turn of the clean-up thread: the scan, the batch over the tasks it returned, and the clearing of
  the streams whose publisher timed out. An exception ends the turn; the tasks returned by the scan
  are already counted then.
\<close>

definition cleanup_cycle :: "'w IStreamStateManager \<Rightarrow> int \<Rightarrow> Scheduler \<Rightarrow> ('w, Scheduler) state" where
  "cleanup_cycle M now_ms sc = do {
     r \<leftarrow> ism_scanTimeoutTasks M now_ms (task_timeout sc * 1000);
     case r of
       Inl _ \<Rightarrow> ret sc
     | Inr exps \<Rightarrow>
         if exps = [] then ret sc
         else do {
           _ \<leftarrow> bindE
                 (ism_deregisterTasksBatch M
                    (map (\<lambda>t. \<lparr>streamName = stream_name t, clientId = client_id t, ident_type = task_type t\<rparr>)
                      exps))
                 (\<lambda>_. clear_streams M (died_streams exps));
           ret (sc\<lparr>tasksCleaned := tasksCleaned sc + of_nat (length exps)\<rparr>)
         }
   }"

text \<open>
  The thread itself, for the clock readings of its turns: it runs a turn while the scheduler runs,
  and ends when it finds it stopped.
\<close>

fun timeoutCleanupThread ::
  "'w IStreamStateManager \<Rightarrow> (int \<times> bool) list \<Rightarrow> Scheduler \<Rightarrow> ('w, Scheduler) state" where
  "timeoutCleanupThread M [] sc = ret sc"
| "timeoutCleanupThread M ((now_ms, stopped) # turns) sc =
     (if \<not> sched_running sc then ret sc
      else do {
        sc \<leftarrow> cleanup_cycle M now_ms sc;
        if stopped then ret (sc\<lparr>sched_running := False\<rparr>) else timeoutCleanupThread M turns sc
      })"

section \<open>Metrics\<close>

record SchedulerMetrics =
  m_total_publish_req :: "64 word"
  m_success_pub :: "64 word"
  m_total_play_req :: "64 word"
  m_success_play :: "64 word"
  m_auth_failures :: "64 word"
  m_tasks_cleaned :: "64 word"
  m_last_update_ms :: "64 word"

definition getMetrics :: "Scheduler \<Rightarrow> SchedulerMetrics" where
  "getMetrics sc =
     \<lparr>m_total_publish_req = totalPublishReq sc, m_success_pub = successPub sc,
      m_total_play_req = totalPlayReq sc, m_success_play = successPlay sc,
      m_auth_failures = authFail sc, m_tasks_cleaned = tasksCleaned sc, m_last_update_ms = 0\<rparr>"

end
