(* ===== verification/Scheduler_Properties.thy ===== *)
theory Scheduler_Properties
  imports Scheduler
begin

text \<open>
  The properties of the scheduler. The lemmas about its callbacks are proved once, over the contract
  of the state manager; the properties instantiate them for the Redis manager on a reliable server,
  the end-to-end one together with the authentication backend.
\<close>

section \<open>Over the contract of the state manager\<close>

definition publish_task ::
  "string \<Rightarrow> string \<Rightarrow> string \<Rightarrow> StreamProtocol \<Rightarrow> int \<Rightarrow> Scheduler \<Rightarrow> StreamTask" where
  "publish_task s c tok proto now_ns sc =
     (let (node, sc) = selectBestNode proto sc
      in fst (createTask s c tok PUBLISHER proto (fst node) (snd node) now_ns sc))"

definition play_task ::
  "string \<Rightarrow> string \<Rightarrow> string \<Rightarrow> StreamProtocol \<Rightarrow> int \<Rightarrow> StreamTask \<Rightarrow> Scheduler \<Rightarrow> StreamTask" where
  "play_task s c tok proto now_ns p sc =
     fst (createTask s c tok PLAYER proto (server_ip p) (server_port p) now_ns sc)"

lemma publish_task_fields [simp]:
  "stream_name (publish_task s c tok proto now_ns sc) = s"
  "client_id (publish_task s c tok proto now_ns sc) = c"
  "task_type (publish_task s c tok proto now_ns sc) = PUBLISHER"
  by (simp_all add: publish_task_def createTask_def case_prod_beta)

lemma play_task_fields [simp]:
  "stream_name (play_task s c tok proto now_ns p sc) = s"
  "client_id (play_task s c tok proto now_ns p sc) = c"
  "task_type (play_task s c tok proto now_ns p sc) = PLAYER"
  "server_ip (play_task s c tok proto now_ns p sc) = server_ip p"
  "server_port (play_task s c tok proto now_ns p sc) = server_port p"
  by (simp_all add: play_task_def createTask_def)

definition publish_outcome ::
  "registry \<Rightarrow> int \<Rightarrow> StreamTask \<Rightarrow> SchedulerResult \<Rightarrow> bool" where
  "publish_outcome \<rho> now_ms task res \<longleftrightarrow>
     (if \<not> taken \<rho> task \<and> reasonable_ms now_ms
      then sr_error res = SUCCESS \<and> sr_task res = Some task
      else sr_error res = ALREADY_PUBLISHING \<and> sr_task res = None)"

definition play_outcome ::
  "registry \<Rightarrow> int \<Rightarrow> string \<Rightarrow> (StreamTask \<Rightarrow> StreamTask) \<Rightarrow> SchedulerResult \<Rightarrow> registry \<Rightarrow> bool" where
  "play_outcome \<rho> now_ms s mk res \<sigma> \<longleftrightarrow>
     ((\<nexists>p. publishes \<rho> s p) \<and> sr_error res = NO_PUBLISHER \<and> \<sigma> = \<rho>)
     \<or> (\<exists>p. publishes \<rho> s p \<and> \<sigma> = registered \<rho> now_ms (mk p)
          \<and> (if reasonable_ms now_ms then sr_error res = SUCCESS \<and> sr_task res = Some (mk p)
             else sr_error res = STATE_STORE_ERROR))"

context stream_state_manager
begin

lemma onPublish_auth_ok:
  assumes "rep K \<rho>" "registrable \<rho> (publish_task s c tok proto now_ns sc)"
  shows "outcome view K (onPublish_auth M now_ns now_ms s c tok proto sc 0)
    (\<lambda>(res, _) L. publish_outcome \<rho> now_ms (publish_task s c tok proto now_ns sc) res
       \<and> rep L (registered \<rho> now_ms (publish_task s c tok proto now_ns sc)))"
proof -
  obtain node sc1 where sel: "selectBestNode proto sc = (node, sc1)"
    by (cases "selectBestNode proto sc")
  obtain task sc2 where cr:
    "createTask s c tok PUBLISHER proto (fst node) (snd node) now_ns sc1 = (task, sc2)"
    by (cases "createTask s c tok PUBLISHER proto (fst node) (snd node) now_ns sc1")
  have task: "publish_task s c tok proto now_ns sc = task"
    by (simp add: publish_task_def sel cr)
  show ?thesis
    using assms(2) unfolding onPublish_auth_def Let_def sel cr prod.case task
    by (auto intro!: outcome_bind [OF publisher_law [OF assms(1)]] outcome_bind [OF register_law [OF assms(1)]]
        outcome_return simp: publish_outcome_def failed_def split: bool.splits)
qed

lemma onPlay_auth_ok:
  assumes "rep K \<rho>" "\<And>p. publishes \<rho> s p \<Longrightarrow> registrable \<rho> (play_task s c tok proto now_ns p sc)"
  shows "outcome view K (onPlay_auth M now_ns now_ms s c tok proto sc 0)
    (\<lambda>(res, _) L. \<exists>\<sigma>. play_outcome \<rho> now_ms s (\<lambda>p. play_task s c tok proto now_ns p sc) res \<sigma> \<and> rep L \<sigma>)"
proof -
  have reg: "outcome view K (do {
        registered \<leftarrow> ism_registerTask M now_ms task;
        ret (case registered of
               Inl _ \<Rightarrow> (failed INTERNAL_ERROR ''Internal error'', sc')
             | Inr False \<Rightarrow> (failed STATE_STORE_ERROR msg_store, sc')
             | Inr True \<Rightarrow> (\<lparr>sr_error = SUCCESS, sr_task = Some task, sr_message = msg_play_ok\<rparr>,
                           sc'\<lparr>successPlay := successPlay sc' + 1\<rparr>)) })
      (\<lambda>(res, _) L. \<exists>\<sigma>. play_outcome \<rho> now_ms s (\<lambda>p. play_task s c tok proto now_ns p sc) res \<sigma> \<and> rep L \<sigma>)"
    if p: "publishes \<rho> s p" and task: "play_task s c tok proto now_ns p sc = task" for p task and sc' :: Scheduler
  proof -
    have r: "registrable \<rho> task" using assms(2) [OF p] task by simp
    have nt: "\<not> taken \<rho> task" using task by (auto simp: taken_def)
    show ?thesis
      by (rule outcome_bind [OF register_law [OF assms(1) r]])
        (use p task nt in \<open>auto intro!: outcome_return simp: play_outcome_def failed_def split: bool.splits; blast\<close>)
  qed
  show ?thesis
    unfolding onPlay_auth_def
  proof (simp only: simp_thms if_False, rule outcome_bind [OF publisher_law [OF assms(1)]], elim conjE)
    fix r L assume r: "found_publisher \<rho> s r" "L = K"
    show "outcome view L (case r of
          None \<Rightarrow> ret (failed NO_PUBLISHER msg_no_pub, sc)
        | Some p \<Rightarrow> let (task, sc) = createTask s c tok PLAYER proto (server_ip p) (server_port p) now_ns sc
            in do {
              registered \<leftarrow> ism_registerTask M now_ms task;
              ret (case registered of
                     Inl _ \<Rightarrow> (failed INTERNAL_ERROR ''Internal error'', sc)
                   | Inr False \<Rightarrow> (failed STATE_STORE_ERROR msg_store, sc)
                   | Inr True \<Rightarrow> (\<lparr>sr_error = SUCCESS, sr_task = Some task, sr_message = msg_play_ok\<rparr>,
                                 sc\<lparr>successPlay := successPlay sc + 1\<rparr>)) })
      (\<lambda>(res, _) L. \<exists>\<sigma>. play_outcome \<rho> now_ms s (\<lambda>p. play_task s c tok proto now_ns p sc) res \<sigma> \<and> rep L \<sigma>)"
    proof (cases r)
      case None
      then show ?thesis
        using r assms(1) by (auto simp: found_publisher_def play_outcome_def failed_def intro!: outcome_return)
    next
      case (Some p)
      then show ?thesis
        using r reg [of p] by (simp add: found_publisher_def play_task_def case_prod_beta)
    qed
  qed
qed

lemma onPublishDone_ok:
  assumes "rep K \<rho>" "colon_free c"
  shows "outcome view K (onPublishDone M s c)
    (\<lambda>r L. r = Inr () \<and> rep L
       (if \<exists>t. \<rho> (s, c) = Some t \<and> task_type t = PUBLISHER then spec_clear s \<rho> else \<rho>))"
  unfolding onPublishDone_def
  using assms(1)
  by (auto intro!: yields_bind [OF get_law [OF assms]] clear_law [OF assms(1)] outcome_return split: option.splits)

lemma onPlayDone_ok:
  assumes "rep K \<rho>" "colon_free c"
  shows "outcome view K (onPlayDone M s c) (\<lambda>r L. r = Inr True \<and> rep L (spec_deregister s c \<rho>))"
  unfolding onPlayDone_def by (rule deregister_law [OF assms])

end

section \<open>Authentication leaves the registry alone\<close>

lemma represents_frame:
  assumes "represents K \<rho>" "take 10 k = ''auth_data:''"
  shows "represents (K(k := v)) \<rho>"
proof -
  have k: "k \<noteq> buildTaskKey s c" "k \<noteq> buildPublisherKey s" "k \<noteq> memberKey s"
    "k \<noteq> buildActivePublishersKey" "k \<noteq> buildGlobalPlayerCountKey" "k \<noteq> buildTaskTimestampZSetKey"
    for s c using assms(2) by (auto simp: key_defs)
  show ?thesis
    using assms(1) unfolding represents_def indexed_def rep_defs
    by (simp add: k [symmetric] cong: option.case_cong)
qed

context auth_backend
begin

lemma keeps_db: "keeps view I (db_select D sk cid tok)"
  using db_frame by (simp add: keeps_def outcome_def)

lemma keeps_cache_write:
  assumes "take 10 k = ''auth_data:''"
  shows "keeps view (\<lambda>K. represents K \<rho>) (setString (ready R) k v t)"
    "keeps view (\<lambda>K. represents K \<rho>) (keyDel (ready R) k)"
  using assms
  by (auto simp: setString_def keyDel_def Let_def
      intro!: keeps_bind keeps_return keeps_exec represents_frame split: if_splits)

lemma keeps_performAuthLogic:
  "keeps view (\<lambda>K. represents K \<rho>) (performAuthLogic (hybrid_repository J (ready R) D) repo sk cid tok)"
proof -
  have k: "take 10 (buildCacheKey sk cid) = ''auth_data:''" by (simp add: buildCacheKey_def)
  have get: "keeps view (\<lambda>K. represents K \<rho>) (getAuthDataFromCacheByKey J (ready R) (buildCacheKey sk cid))"
    unfolding getAuthDataFromCacheByKey_def getString_def
    by (auto intro!: keeps_bind keeps_return keeps_exec)
  have db: "keeps view (\<lambda>K. represents K \<rho>) (getAuthDataFromDB D sk cid tok)"
    unfolding getAuthDataFromDB_def by (auto intro!: keeps_bind keeps_return keeps_db split: db_reply.splits)
  show ?thesis
    unfolding performAuthLogic_def hybrid_repository_def getAuthData_def queryDatabase_def
      cacheNegativeResult_def setEmptyAuthDataToCache_def cacheAuthData_def setAuthDataToCacheByKey_def Let_def
    by (auto intro!: keeps_bind keeps_return get db keeps_cache_write [OF k]
        split: option.splits sum.splits prod.splits)
qed

end

section \<open>From a request to the registry\<close>

lemma outcome_with:
  assumes "outcome view K m \<Phi>"
  shows "outcome (\<lambda>w. (view w, rows w)) (K, T) m (\<lambda>x (L, _). \<Phi> x L)"
  using assms by (simp add: outcome_def)

lemma outcome_conjI:
  assumes "outcome v K m \<Phi>" "outcome v K m \<Psi>"
  shows "outcome v K m (\<lambda>x L. \<Phi> x L \<and> \<Psi> x L)"
  using assms by (simp add: outcome_def)

text \<open>
  What a granted publish request guarantees: the database authorised it, and the registry is the old
  one with this client as the publisher of the stream.
\<close>

definition publish_granted ::
  "(string \<Rightarrow> string \<Rightarrow> string \<Rightarrow> bool) \<Rightarrow> registry \<Rightarrow> string \<Rightarrow> string \<Rightarrow> string \<Rightarrow> SchedulerResult \<Rightarrow>
   keyspace \<Rightarrow> bool" where
  "publish_granted H \<rho> s c tok r L \<longleftrightarrow> H s c tok \<and>
     (\<exists>t. sr_task r = Some t \<and> represents L (\<rho>((s, c) \<mapsto> stored t))
        \<and> publishes (\<rho>((s, c) \<mapsto> stored t)) s (stored t) \<and> client_id t = c)"

text \<open>Both backends together: a pipeline of Redis commands leaves the rows of the database alone too.\<close>

locale gate_backend = auth_backend R view D rows col_eq + redis_reliable R view
  for R :: "'w redis" and view :: "'w \<Rightarrow> keyspace" and D rows col_eq +
  assumes pipe_rows: "rows (snd (run_state (redis_pipe R cs) w)) = rows w"
begin

lemma auth_keeps_registry:
  assumes J: "json_roundtrip J" and cache: "cache_ok J H K" and rep: "represents K \<rho>"
    and H: "\<And>sk cid tok. authorised col_eq T sk cid tok \<Longrightarrow> H sk cid tok"
  shows "outcome (\<lambda>w. (view w, rows w)) (K, T)
    (performAuthLogic (hybrid_repository J (ready R) D) repo s c tok)
    (\<lambda>r LU. represents (fst LU) \<rho> \<and> (fst r = 0 \<longrightarrow> H s c tok))"
proof -
  have "outcome view K (performAuthLogic (hybrid_repository J (ready R) D) repo s c tok)
      (\<lambda>_ L. represents L \<rho>)"
    using keeps_performAuthLogic [of \<rho> J repo s c tok] rep by (simp add: keeps_def)
  note keep = outcome_with [OF this, of rows T]
  have "outcome (\<lambda>w. (view w, rows w)) (K, T)
      (performAuthLogic (hybrid_repository J (ready R) D) repo s c tok)
      (\<lambda>(code, _) (L, U). U = T \<and> cache_ok J H L \<and> (code = AUTH_SUCCESS \<longrightarrow> H s c tok))"
    by (rule performAuthLogic_both [OF J cache H])
  from outcome_conjI [OF this keep] show ?thesis
    by (rule outcome_mono) (auto simp: AUTH_SUCCESS_def)
qed

lemma onPublish_auth_granted:
  assumes "represents L \<rho>" "code = 0 \<longrightarrow> H s c tok"
    and reg: "registrable \<rho> (publish_task s c tok proto now_ns sc)"
  shows "outcome (\<lambda>w. (view w, rows w)) (L, U)
    (onPublish_auth (RedisStreamStateManager (ready R)) now_ns now_ms s c tok proto sc code)
    (\<lambda>x LU. (\<exists>\<sigma>. represents (fst LU) \<sigma>)
       \<and> (isSuccess (fst x) \<longrightarrow> publish_granted H \<rho> s c tok (fst x) (fst LU)))"
proof (cases "code = 0")
  case True
  have "publish_granted H \<rho> s c tok r L'"
    if "publish_outcome \<rho> now_ms (publish_task s c tok proto now_ns sc) r" "isSuccess r"
      "represents L' (registered \<rho> now_ms (publish_task s c tok proto now_ns sc))" for r L'
    using that assms(2) True
    by (auto simp: publish_outcome_def isSuccess_def publish_granted_def registered_def
        spec_register_def publishes_def split: if_splits
        intro!: exI [of _ "publish_task s c tok proto now_ns sc"])
  then show ?thesis
    unfolding True
    by (intro outcome_mono [OF outcome_with [OF ism.onPublish_auth_ok [OF assms(1) reg, of now_ms], of rows U]])
      (auto simp: case_prod_beta)
next
  case False
  then show ?thesis
    unfolding onPublish_auth_def using assms(1)
    by (auto intro!: outcome_return simp: isSuccess_def failed_def)
qed

lemma onPublish_sound:
  assumes J: "json_roundtrip J" and cache: "cache_ok J H K" and rep: "represents K \<rho>"
    and H: "\<And>sk cid tok. authorised col_eq T sk cid tok \<Longrightarrow> H sk cid tok"
    and reg: "registrable \<rho> (publish_task s c tok proto now_ns (sc\<lparr>totalPublishReq := totalPublishReq sc + 1\<rparr>))"
  shows "outcome (\<lambda>w. (view w, rows w)) (K, T)
    (onPublish (RedisStreamStateManager (ready R)) am (hybrid_repository J (ready R) D) repo fate
       now_ns now_ms s c tok proto sc)
    (\<lambda>x LU. (\<exists>\<sigma>. represents (fst LU) \<sigma>)
       \<and> (\<forall>r. fst x = Inr (Some r) \<longrightarrow> isSuccess r \<longrightarrow> publish_granted H \<rho> s c tok r (fst LU)))"
    (is "outcome ?v _ _ _")
proof -
  define sc' where "sc' = sc\<lparr>totalPublishReq := totalPublishReq sc + 1\<rparr>"
  have "outcome ?v (K, T) (checkAuthAsync am (hybrid_repository J (ready R) D) repo fate
        \<lparr>req_streamKey = s, req_clientId = c, req_authToken = tok\<rparr>
        (onPublish_auth (RedisStreamStateManager (ready R)) now_ns now_ms s c tok proto sc'))
      (\<lambda>x LU. (\<exists>\<sigma>. represents (fst LU) \<sigma>)
         \<and> (\<forall>r. fst x = Inr (Some r) \<longrightarrow> isSuccess (fst r) \<longrightarrow> publish_granted H \<rho> s c tok (fst r) (fst LU)))"
    (is "outcome ?v _ ?m ?post")
  proof -
    have step: "outcome ?v LU (do {
          x \<leftarrow> onPublish_auth (RedisStreamStateManager (ready R)) now_ns now_ms s c tok proto sc' (fst r);
          ret (Inr (Some x), snd r) }) ?post"
      if "represents (fst LU) \<rho> \<and> (fst r = 0 \<longrightarrow> H s c tok)" for r LU
      using onPublish_auth_granted [of "fst LU" \<rho> "fst r" H s c tok proto now_ns sc' "snd LU" now_ms] that reg
      by (auto simp: sc'_def intro!: outcome_bind [where K = LU] outcome_return)
    have "outcome ?v (K, T) (do {
          r \<leftarrow> performAuthLogic (hybrid_repository J (ready R) D) repo s c tok;
          x \<leftarrow> onPublish_auth (RedisStreamStateManager (ready R)) now_ns now_ms s c tok proto sc' (fst r);
          ret (Inr (Some x), snd r) }) ?post"
      by (rule outcome_bind [OF auth_keeps_registry [OF J cache rep H]]) (assumption, rule step)
    then show ?thesis
      using rep by (auto simp: checkAuthAsync_def intro!: outcome_return split: pool_fate.splits)
  qed
  then show ?thesis
    unfolding onPublish_def Let_def sc'_def [symmetric]
    using rep
    by (auto intro!: outcome_return outcome_bind [where K = "(K, T)"] simp: validateRequest_def isSuccess_def
        split: option.splits sum.splits prod.splits if_splits)
qed

end

interpretation gate: gate_backend mem_redis mem_view "table_db demo_rows" "\<lambda>_. set demo_rows" "(=)"
  by unfold_locales simp

section \<open>Properties\<close>

definition demo_scheduler :: Scheduler where
  "demo_scheduler = new_Scheduler demo_nodes 30 60"

definition demo_ns :: int where "demo_ns = 1700000000000 * 1000000"

lemma demo_publish_registrable:
  "registrable Map.empty (publish_task ''v/live/s1'' ''c1'' ''tok'' RTMP demo_ns
     (demo_scheduler\<lparr>totalPublishReq := totalPublishReq demo_scheduler + 1\<rparr>))"
  by (simp add: registrable_def colon_free_def players_def storable_def publish_task_def createTask_def
      selectBestNode_def demo_scheduler_def new_Scheduler_def demo_nodes_def new_NodeConfig_def demo_ns_def
      int32_range_def reasonable_ms_def duration_cast_def MIN_REASONABLE_MS_def MAX_REASONABLE_MS_def
      default_task_def)

text \<open>
  A publish request is granted only to an authorised client, and then the stream is its own: on
  a reliable store, whatever becomes of the task handed to the pool, a successful answer means that
  the database authorised this stream, client and token, and that the registry is the old one with
  this client as the one publisher of the stream; every other answer leaves a consistent registry.
\<close>

theorem onPublish_grants_soundly:
  assumes "gate_backend R view D rows col_eq" "json_roundtrip J" "cache_ok J H K" "represents K \<rho>"
    and "\<And>sk cid tok. authorised col_eq T sk cid tok \<Longrightarrow> H sk cid tok"
    and "registrable \<rho> (publish_task s c tok proto now_ns (sc\<lparr>totalPublishReq := totalPublishReq sc + 1\<rparr>))"
  shows "outcome (\<lambda>w. (view w, rows w)) (K, T)
    (onPublish (RedisStreamStateManager (ready R)) am (hybrid_repository J (ready R) D) repo fate
       now_ns now_ms s c tok proto sc)
    (\<lambda>x LU. (\<exists>\<sigma>. represents (fst LU) \<sigma>)
       \<and> (\<forall>r. fst x = Inr (Some r) \<longrightarrow> isSuccess r \<longrightarrow> publish_granted H \<rho> s c tok r (fst LU)))"
  using gate_backend.onPublish_sound [OF assms(1), OF assms(2-6)] .

theorem onPublish_grants_soundly_witness:
  "outcome (\<lambda>w. (mem_view w, set demo_rows)) (Map.empty, set demo_rows)
    (onPublish (RedisStreamStateManager (ready mem_redis)) \<lparr>am_shutdown = False\<rparr>
       (hybrid_repository demo_json (ready mem_redis) (table_db demo_rows))
       (new_HybridAuthRepository (ready mem_redis)) Ran demo_ns demo_now
       ''v/live/s1'' ''c1'' ''tok'' RTMP demo_scheduler)
    (\<lambda>x LU. (\<exists>\<sigma>. represents (fst LU) \<sigma>)
       \<and> (\<forall>r. fst x = Inr (Some r) \<longrightarrow> isSuccess r \<longrightarrow>
            publish_granted (authorised (=) (set demo_rows)) Map.empty ''v/live/s1'' ''c1'' ''tok'' r (fst LU)))"
proof -
  have c: "cache_ok demo_json (authorised (=) (set demo_rows)) Map.empty"
    by (simp add: cache_ok_def)
  show ?thesis
    by (rule onPublish_grants_soundly [OF gate.gate_backend_axioms demo_json_roundtrip c represents_empty _
          demo_publish_registrable])
qed



text \<open>
  C15. The end of a publication clears the stream only when it comes from the stream's present
  publisher; a late or foreign notification changes nothing.
\<close>

theorem onPublishDone_only_own:
  assumes "redis_reliable R view" "represents K \<rho>" "colon_free c"
  shows "outcome view K (onPublishDone (RedisStreamStateManager (ready R)) s c)
    (\<lambda>r L. r = Inr () \<and> represents L
       (if \<exists>t. \<rho> (s, c) = Some t \<and> task_type t = PUBLISHER then spec_clear s \<rho> else \<rho>))"
  using stream_state_manager.onPublishDone_ok [OF redis_reliable.state_manager [OF assms(1)], OF assms(2,3)] .

theorem onPublishDone_only_own_witness:
  "outcome mem_view Map.empty (onPublishDone (RedisStreamStateManager (ready mem_redis)) ''s'' ''c'')
    (\<lambda>r L. r = Inr () \<and> represents L Map.empty)"
proof -
  have c: "colon_free ''c''" by (simp add: colon_free_def)
  from onPublishDone_only_own [OF mem.redis_reliable_axioms represents_empty c, of "''s''"]
  show ?thesis by simp
qed

section \<open>The clean-up turn counts players twice\<close>

lemma dereg_players_total:
  assumes "hash_at K buildGlobalPlayerCountKey = Some m" "redis_int (m ''total'') = Some n"
    and "int64_range (n - int (length is))" "\<forall>i \<in> set is. ident_type i = PLAYER"
  shows "\<exists>m'. hash_at (fold apply_cmd (concat (map dereg_cmds is)) K) buildGlobalPlayerCountKey = Some m'
    \<and> redis_int (m' ''total'') = Some (n - int (length is))"
  using assms
proof (induction "is" arbitrary: K m n)
  case (Cons i "is")
  have r: "int64_range (n - 1)"
    using Cons.prems(3) redis_int_range [OF Cons.prems(2)] by (simp add: int64_range_def)
  then have inc: "incr_result m ''total'' (-1) = Some (n - 1)"
    using Cons.prems(2) by (simp add: incr_result_def)
  have "hash_at (fold apply_cmd (dereg_cmds i) K) buildGlobalPlayerCountKey =
      Some (m(''total'' \<mapsto> to_string (n - 1)))"
    using Cons.prems(1,4) inc by (auto split: option.splits)
  from Cons.IH [OF this, of "n - 1"] show ?case
    using r Cons.prems(3,4) by (simp add: algebra_simps del: dereg_cmds.simps)
qed simp

text \<open>The tasks a scan returns are as many as the entries it removes.\<close>

lemma scan_result_length:
  assumes "valid_registry \<rho>" "scan_result now timeout ks \<rho> ts"
  shows "length ts = card (lapsed now timeout ks \<rho>)"
proof -
  have "inj_on (\<lambda>k. the (\<rho> k)) (lapsed now timeout ks \<rho>)"
    by (rule inj_on_inverseI [where g = "\<lambda>t. (stream_name t, client_id t)"])
      (use valid_registryD [OF assms(1)] in \<open>auto simp: lapsed_def\<close>)
  then show ?thesis
    using assms(2) distinct_card [of ts] by (simp add: scan_result_def card_image)
qed

lemma scan_result_players:
  assumes "scan_result now timeout ks \<rho> ts" "lapsed now timeout ks \<rho> \<subseteq> players \<rho>"
  shows "\<forall>t \<in> set ts. task_type t = PLAYER"
  using assms unfolding scan_result_def by (force simp: players_def)

lemma swept_players:
  assumes "represents K \<rho>" "lapsed now timeout ks \<rho> \<subseteq> players \<rho>"
  shows "int (card (players (swept now timeout ks \<rho>))) = int (card (players \<rho>)) - int (card (lapsed now timeout ks \<rho>))
    \<and> int64_range (int (card (players \<rho>)) - 2 * int (card (lapsed now timeout ks \<rho>)))"
proof -
  have idx: "indexed K \<rho>" using assms(1) by (simp add: represents_def)
  note fin = finite_players [OF indexed_valid [OF idx]]
  have "players (swept now timeout ks \<rho>) = players \<rho> - lapsed now timeout ks \<rho>"
    by (auto simp: players_def swept_def)
  moreover have "int64_range (int (card (players \<rho>)))" using idx by (rule indexed_total)
  ultimately show ?thesis
    using card_mono [OF fin assms(2)] card_Diff_subset [OF finite_subset [OF assms(2) fin] assms(2)]
    by (simp add: of_nat_diff int64_range_def)
qed

abbreviation identifiers :: "StreamTask list \<Rightarrow> TaskIdentifier list" where
  "identifiers \<equiv> map (\<lambda>t. \<lparr>streamName = stream_name t, clientId = client_id t, ident_type = task_type t\<rparr>)"

lemma batch_total:
  assumes "represents L \<sigma>" "\<forall>t \<in> set ts. task_type t = PLAYER"
    and "int64_range (int (card (players \<sigma>)) - int (length ts))"
  shows "\<exists>m. hash_at (fold apply_cmd (concat (map dereg_cmds (identifiers ts))) L) buildGlobalPlayerCountKey = Some m
    \<and> redis_int (m ''total'') = Some (int (card (players \<sigma>)) - int (length ts))"
proof -
  have "indexed L \<sigma>" using assms(1) by (simp add: represents_def)
  then obtain m where "hash_at L buildGlobalPlayerCountKey = Some m"
    "redis_int (m ''total'') = Some (int (card (players \<sigma>)))" by (rule indexed_total)
  from dereg_players_total [OF this, of "identifiers ts"] assms(2,3) show ?thesis by simp
qed

context redis_reliable
begin

lemma cleanup_cycle_players:
  fixes sc :: Scheduler
  defines "limit \<equiv> task_timeout sc * 1000"
  assumes rep: "represents K \<rho>" and old: "lapsed now limit (due K (now - limit)) \<rho> \<subseteq> players \<rho>"
  shows "outcome view K (cleanup_cycle (RedisStreamStateManager (ready R)) now sc)
    (\<lambda>sc' L. sc' = sc\<lparr>tasksCleaned := tasksCleaned sc + of_nat (card (lapsed now limit (due K (now - limit)) \<rho>))\<rparr>
       \<and> (\<exists>m. hash_at L buildGlobalPlayerCountKey = Some m \<and> redis_int (m ''total'') =
            Some (int (card (players \<rho>)) - 2 * int (card (lapsed now limit (due K (now - limit)) \<rho>)))))"
    (is "outcome view K _ ?post")
proof -
  let ?out = "lapsed now limit (due K (now - limit)) \<rho>"
  let ?\<sigma> = "swept now limit (due K (now - limit)) \<rho>"
  let ?M = "RedisStreamStateManager (ready R)"
  have v: "valid_registry \<rho>" using rep by (simp add: represents_def indexed_def)
  note sw = swept_players [OF rep old]
  have turn: "outcome view L (if ts = [] then ret sc
         else do { _ \<leftarrow> bindE (deregisterTasksBatch (ready R) (identifiers ts)) (\<lambda>_. clear_streams ?M (died_streams ts));
                   ret (sc\<lparr>tasksCleaned := tasksCleaned sc + of_nat (length ts)\<rparr>) }) ?post"
    if ts: "scan_result now limit (due K (now - limit)) \<rho> ts" and L: "represents L ?\<sigma>" for L ts
  proof -
    have len: "length ts = card ?out" by (rule scan_result_length [OF v ts])
    note pl = scan_result_players [OF ts old]
    have none: "died_streams ts = []" using pl by (simp add: died_streams_def filter_empty_conv)
    have total: "int (card (players ?\<sigma>)) - int (length ts) = int (card (players \<rho>)) - 2 * int (card ?out)"
      using sw len by simp
    have "\<exists>m. hash_at (fold apply_cmd (concat (map dereg_cmds (identifiers ts))) L) buildGlobalPlayerCountKey = Some m
        \<and> redis_int (m ''total'') = Some (int (card (players \<rho>)) - 2 * int (card ?out))"
      using batch_total [OF L pl, unfolded total] sw by blast
    then have post: "?post (sc\<lparr>tasksCleaned := tasksCleaned sc + of_nat (length ts)\<rparr>)
        (fold apply_cmd (concat (map dereg_cmds (identifiers ts))) L)"
      by (simp add: len)
    have run: "yields view L (bindE (deregisterTasksBatch (ready R) (identifiers ts)) (\<lambda>_. clear_streams ?M (died_streams ts)))
        (Inr ()) (fold apply_cmd (concat (map dereg_cmds (identifiers ts))) L)"
      by (rule yields_bindE [OF deregisterTasksBatch_ok]) (simp add: none)
    show ?thesis
      using post by (cases "ts = []") (auto intro!: outcome_return yields_bind [OF run])
  qed
  have ops: "ism_scanTimeoutTasks ?M = scanTimeoutTasks (ready R)" "ism_deregisterTasksBatch ?M = deregisterTasksBatch (ready R)"
    by (simp_all add: RedisStreamStateManager_def)
  show ?thesis
    unfolding cleanup_cycle_def limit_def [symmetric] ops
    by (rule outcome_bind [OF scanTimeoutTasks_ok [OF rep]]) (elim exE conjE, simp only: sum.case turn)
qed

end



end
