(* ===== verification/Hook_Server.thy ===== *)
theory Hook_Server
  imports Zlm_Hook Scheduler_Properties
begin

text \<open>
  From the HTTP request to the scheduler and back: \<open>HookUseCase\<close> (\<open>src/util/HookUseCase.cpp\<close>),
  \<open>HookController\<close> (\<open>src/main/HookController.cpp\<close>) and the session of the HTTP server
  (\<open>src/main/HookServer.cpp\<close>). The references the scheduler holds are the record \<open>Gate\<close>; what
  happens around one request (the clock readings and the fate of its pool task) is the record
  \<open>Moment\<close>. A callback is the value it is called with, \<^term>\<open>None\<close> when it never runs. The network
  library is outside: a session is driven by the results of its reads and writes.
\<close>

section \<open>Use cases and routing\<close>

record ('w, 'r) Gate =
  g_state :: "'w IStreamStateManager"
  g_auth :: AuthManager
  g_repo :: "('w, 'r) IAuthRepository"

record Moment =
  at_ns :: int
  at_ms :: int
  at_fate :: pool_fate

type_synonym ('w, 'r, 'a) served = "('w, (exn + 'a option) \<times> Scheduler \<times> 'r) state"

definition mapResult :: "SchedulerResult \<Rightarrow> HookDecision" where
  "mapResult res = (if sr_error res = SUCCESS then allow else deny (sr_message res))"

definition processPublish ::
  "('w, 'r) Gate \<Rightarrow> Moment \<Rightarrow> ZlmHookRequest \<Rightarrow> Scheduler \<Rightarrow> 'r \<Rightarrow> ('w, 'r, HookDecision) served" where
  "processPublish g t req sc repo = do {
     r \<leftarrow> onPublish (g_state g) (g_auth g) (g_repo g) repo (at_fate t) (at_ns t) (at_ms t)
            (stream_key req) (hook_client_id req) (get_token req) (hook_protocol req) sc;
     ret (map_sum id (map_option mapResult) (fst r), snd r)
   }"

definition processPlay ::
  "('w, 'r) Gate \<Rightarrow> Moment \<Rightarrow> ZlmHookRequest \<Rightarrow> Scheduler \<Rightarrow> 'r \<Rightarrow> ('w, 'r, HookDecision) served" where
  "processPlay g t req sc repo = do {
     r \<leftarrow> onPlay (g_state g) (g_auth g) (g_repo g) repo (at_fate t) (at_ns t) (at_ms t)
            (stream_key req) (hook_client_id req) (get_token req) (hook_protocol req) sc;
     ret (map_sum id (map_option mapResult) (fst r), snd r)
   }"

definition processPublishDone :: "('w, 'r) Gate \<Rightarrow> ZlmHookRequest \<Rightarrow> ('w, HookDecision) call" where
  "processPublishDone g req =
     bindE (onPublishDone (g_state g) (stream_key req) (hook_client_id req)) (\<lambda>_. ok allow)"

definition processPlayDone :: "('w, 'r) Gate \<Rightarrow> ZlmHookRequest \<Rightarrow> ('w, HookDecision) call" where
  "processPlayDone g req =
     bindE (onPlayDone (g_state g) (stream_key req) (hook_client_id req)) (\<lambda>_. ok allow)"

definition handlePublish ::
  "('w, 'r) Gate \<Rightarrow> Moment \<Rightarrow> ZlmHookRequest \<Rightarrow> Scheduler \<Rightarrow> 'r \<Rightarrow> ('w, 'r, ZlmHookResponse) served" where
  "handlePublish g t hook sc repo = do {
     r \<leftarrow> processPublish g t hook sc repo;
     ret (map_sum id (map_option to_response) (fst r), snd r)
   }"

definition handlePlay ::
  "('w, 'r) Gate \<Rightarrow> Moment \<Rightarrow> ZlmHookRequest \<Rightarrow> Scheduler \<Rightarrow> 'r \<Rightarrow> ('w, 'r, ZlmHookResponse) served" where
  "handlePlay g t hook sc repo = do {
     r \<leftarrow> processPlay g t hook sc repo;
     ret (map_sum id (map_option to_response) (fst r), snd r)
   }"

definition handlePublishDone ::
  "('w, 'r) Gate \<Rightarrow> ZlmHookRequest \<Rightarrow> Scheduler \<Rightarrow> 'r \<Rightarrow> ('w, 'r, ZlmHookResponse) served" where
  "handlePublishDone g hook sc repo = do {
     d \<leftarrow> processPublishDone g hook;
     ret (map_sum id (\<lambda>d. Some (to_response d)) d, sc, repo)
   }"

definition handlePlayDone ::
  "('w, 'r) Gate \<Rightarrow> ZlmHookRequest \<Rightarrow> Scheduler \<Rightarrow> 'r \<Rightarrow> ('w, 'r, ZlmHookResponse) served" where
  "handlePlayDone g hook sc repo = do {
     d \<leftarrow> processPlayDone g hook;
     ret (map_sum id (\<lambda>d. Some (to_response d)) d, sc, repo)
   }"

definition routeHook ::
  "('w, 'r) Gate \<Rightarrow> Moment \<Rightarrow> ZlmHookRequest \<Rightarrow> Scheduler \<Rightarrow> 'r \<Rightarrow> ('w, 'r, ZlmHookResponse) served" where
  "routeHook g t hook sc repo =
     (case hook_action hook of
        Publish \<Rightarrow> handlePublish g t hook sc repo
      | Play \<Rightarrow> handlePlay g t hook sc repo
      | PublishDone \<Rightarrow> handlePublishDone g hook sc repo
      | StreamNoneReader \<Rightarrow> handlePublishDone g hook sc repo
      | PlayDone \<Rightarrow> handlePlayDone g hook sc repo
      | _ \<Rightarrow> ret (Inr (Some \<lparr>zlm_code = ZLM_UNSUPPORTED_ACTION, zlm_message = ''Unsupported action''\<rparr>),
                  sc, repo))"

section \<open>The HTTP session\<close>

datatype verb = GET | POST | OtherVerb

record HttpRequest =
  req_method :: verb
  req_target :: string
  req_body :: string
  req_keep_alive :: bool

record HttpResponse =
  http_status :: int
  content_type :: string
  server_field :: string
  resp_keep_alive :: bool
  resp_body :: string

definition map_path_to_action :: "string \<Rightarrow> HookAction" where
  "map_path_to_action path =
     (if path = ''/index/hook/on_publish'' then Publish
      else if path = ''/index/hook/on_play'' then Play
      else if path = ''/index/hook/on_publish_done'' then PublishDone
      else if path = ''/index/hook/on_play_done'' then PlayDone
      else if path = ''/index/hook/on_stream_none_reader'' then StreamNoneReader
      else if path = ''/index/hook/on_stream_not_found'' then StreamNotFound
      else UnknownAction)"

fun map_to_http :: "ZlmHookResult \<Rightarrow> int \<times> int" where
  "map_to_http ZLM_SUCCESS = (200, 0)"
| "map_to_http ZLM_AUTH_DENIED = (200, 1)"
| "map_to_http ZLM_INVALID_FORMAT = (400, 2)"
| "map_to_http ZLM_UNSUPPORTED_ACTION = (400, 3)"
| "map_to_http ZLM_INTERNAL_ERROR = (200, 4)"
| "map_to_http ZLM_TIMEOUT = (504, 5)"
| "map_to_http ZLM_RESOURCE_NOT_READY = (503, 6)"

definition reply :: "HttpRequest \<Rightarrow> int \<Rightarrow> string \<Rightarrow> HttpResponse" where
  "reply req status body =
     \<lparr>http_status = status, content_type = ''application/json'', server_field = ''StreamGate/1.0'',
      resp_keep_alive = req_keep_alive req, resp_body = body\<rparr>"

text \<open>The fixed body of \<open>send_response\<close> for a message that is not UTF-8 (34 is the double quote).\<close>

definition fallback_body :: string where
  "fallback_body =
     (let q = [CHR 0x22] in
      ''{'' @ q @ ''code'' @ q @ '':500,'' @ q @ ''msg'' @ q @ '':'' @ q @ ''internal error'' @ q @ ''}'')"

definition send_response :: "json_lib \<Rightarrow> HttpRequest \<Rightarrow> int \<Rightarrow> int \<Rightarrow> string \<Rightarrow> HttpResponse" where
  "send_response J req status business_code message =
     reply req status
       (case json_dump J (JObj [(''code'', JInt business_code), (''msg'', JStr message)]) of
          Some s \<Rightarrow> s | None \<Rightarrow> fallback_body)"

text \<open>
  The request handler: what it writes (\<^term>\<open>Some\<close> response, or \<^term>\<open>None\<close> when no write is started)
  and the flag \<open>_responded\<close> of the session. An exception from printing the metrics or the health
  report is not caught: it leaves the worker thread and ends the process. \<open>metrics\<close> is the report of the collector and \<open>time_s\<close> the clock in seconds.
\<close>

definition get_request :: "json_lib \<Rightarrow> json \<Rightarrow> int \<Rightarrow> HttpRequest \<Rightarrow> string \<Rightarrow> exn + HttpResponse option" where
  "get_request J metrics time_s req path =
     (if path = ''/metrics'' then
        (case json_dump2 J metrics of
           None \<Rightarrow> Inl JsonException | Some s \<Rightarrow> Inr (Some (reply req 200 s)))
      else if path = ''/health'' then
        (case json_dump2 J (JObj [(''status'', JStr ''healthy''), (''timestamp'', JInt time_s)]) of
           None \<Rightarrow> Inl JsonException | Some s \<Rightarrow> Inr (Some (reply req 200 s)))
      else Inr (Some (send_response J req 404 999 ''Not found'')))"

text \<open>The callback of the session: the first one to come answers, later ones are dropped.\<close>

definition hook_reply ::
  "json_lib \<Rightarrow> HttpRequest \<Rightarrow> bool \<Rightarrow> exn + ZlmHookResponse option \<Rightarrow> HttpResponse option \<times> bool" where
  "hook_reply J req responded r =
     (case r of
        Inl JsonException \<Rightarrow> (Some (send_response J req 400 2 ''Protocol format error''), responded)
      | Inl _ \<Rightarrow>
          let (h, b) = map_to_http ZLM_INTERNAL_ERROR
          in (Some (send_response J req h b ''Internal service error''), responded)
      | Inr None \<Rightarrow> (None, responded)
      | Inr (Some resp) \<Rightarrow>
          if responded then (None, responded)
          else let (h, b) = map_to_http (zlm_code resp)
               in (Some (send_response J req h b (zlm_message resp)), True))"

definition handle_request ::
  "json_lib \<Rightarrow> ('w, 'r) Gate \<Rightarrow> Moment \<Rightarrow> json \<Rightarrow> int \<Rightarrow> HttpRequest \<Rightarrow> bool \<Rightarrow> Scheduler \<Rightarrow> 'r \<Rightarrow>
   ('w, (exn + HttpResponse option) \<times> bool \<times> Scheduler \<times> 'r) state" where
  "handle_request J g t metrics time_s req responded sc repo =
     (let path = takeWhile (\<lambda>c. c \<noteq> CHR ''?'') (req_target req) in
      if req_method req = GET then ret (get_request J metrics time_s req path, responded, sc, repo)
      else if req_method req \<noteq> POST
      then ret (Inr (Some (send_response J req 405 999 ''Method not allowed'')), responded, sc, repo)
      else
        let action = map_path_to_action path in
        if action = UnknownAction
        then ret (Inr (Some (send_response J req 404 999 ''Not found'')), responded, sc, repo)
        else (case json_parse J (req_body req) of
                None \<Rightarrow> ret (Inr (Some (send_response J req 400 2 ''Protocol format error'')), responded, sc, repo)
              | Some j \<Rightarrow>
                  (case hook_from_json J j of
                     None \<Rightarrow> ret (Inr (Some (send_response J req 400 2 ''Invalid hook format'')), responded, sc, repo)
                   | Some hook \<Rightarrow> do {
                       r \<leftarrow> routeHook g t (hook\<lparr>hook_action := action\<rparr>) sc repo;
                       ret (let (out, resp) = hook_reply J req responded (fst r) in (Inr out, resp, snd r))
                     })))"

text \<open>
  A session is reading, writing a response, waiting without any pending operation (a callback was
  dropped or has not come), or closed; an exception that its handler does not catch leaves it
  terminated, with the process. \<open>ss_sent\<close> are the responses written so far.
\<close>

datatype session_phase = Reading | Writing bool | Waiting | Closed | Terminated

record Session =
  ss_phase :: session_phase
  ss_responded :: bool
  ss_sent :: "HttpResponse list"

datatype io_result = IoOk | Aborted | EndOfStream | IoError

definition new_Session :: Session where
  "new_Session = \<lparr>ss_phase = Reading, ss_responded = False, ss_sent = []\<rparr>"

definition on_read ::
  "json_lib \<Rightarrow> ('w, 'r) Gate \<Rightarrow> Moment \<Rightarrow> json \<Rightarrow> int \<Rightarrow> io_result \<Rightarrow> HttpRequest \<Rightarrow> Session \<Rightarrow> Scheduler \<Rightarrow> 'r \<Rightarrow>
   ('w, Session \<times> Scheduler \<times> 'r) state" where
  "on_read J g t metrics time_s ec req ss sc repo =
     (if ec \<noteq> IoOk then ret (ss\<lparr>ss_phase := Closed\<rparr>, sc, repo)
      else do {
        r \<leftarrow> handle_request J g t metrics time_s req (ss_responded ss) sc repo;
        ret (case r of
               (Inl _, resp, sc, repo) \<Rightarrow> (ss\<lparr>ss_phase := Terminated, ss_responded := resp\<rparr>, sc, repo)
             | (Inr None, resp, sc, repo) \<Rightarrow> (ss\<lparr>ss_phase := Waiting, ss_responded := resp\<rparr>, sc, repo)
             | (Inr (Some out), resp, sc, repo) \<Rightarrow>
                 (ss\<lparr>ss_phase := Writing (resp_keep_alive out), ss_responded := resp,
                     ss_sent := ss_sent ss @ [out]\<rparr>, sc, repo))
      })"

definition on_write :: "io_result \<Rightarrow> Session \<Rightarrow> Session" where
  "on_write ec ss =
     (case ss_phase ss of
        Writing keep_alive \<Rightarrow>
          if ec \<noteq> IoOk then ss\<lparr>ss_phase := Closed\<rparr>
          else if keep_alive then ss\<lparr>ss_phase := Reading\<rparr>
          else ss\<lparr>ss_phase := Closed\<rparr>
      | _ \<Rightarrow> ss)"

text \<open>A connection whose reads and writes succeed: requests are read while the session is reading.\<close>

fun serve ::
  "json_lib \<Rightarrow> ('w, 'r) Gate \<Rightarrow> json \<Rightarrow> int \<Rightarrow> (HttpRequest \<times> Moment) list \<Rightarrow> Session \<Rightarrow> Scheduler \<Rightarrow> 'r \<Rightarrow>
   ('w, Session \<times> Scheduler \<times> 'r) state" where
  "serve J g metrics time_s [] ss sc repo = ret (ss, sc, repo)"
| "serve J g metrics time_s ((req, t) # rest) ss sc repo =
     (if ss_phase ss \<noteq> Reading then ret (ss, sc, repo)
      else do {
        r \<leftarrow> on_read J g t metrics time_s IoOk req ss sc repo;
        serve J g metrics time_s rest (on_write IoOk (fst r)) (fst (snd r)) (snd (snd r))
      })"

section \<open>The server\<close>

record HookServer =
  hs_running :: bool
  hs_listening :: bool
  hs_work_guard :: bool
  hs_workers :: nat

definition new_HookServer :: HookServer where
  "new_HookServer = \<lparr>hs_running = False, hs_listening = False, hs_work_guard = False, hs_workers = 0\<rparr>"

text \<open>
  \<open>start\<close>: \<open>bound\<close> says whether address and port could be bound; a failure resets the running flag.
  \<open>io_threads\<close> is the configured number of workers.
\<close>

definition server_start :: "bool \<Rightarrow> int \<Rightarrow> HookServer \<Rightarrow> bool \<times> HookServer" where
  "server_start bound io_threads hs =
     (if hs_running hs then (True, hs)
      else if bound
      then (True, hs\<lparr>hs_running := True, hs_listening := True, hs_work_guard := True,
                     hs_workers := hs_workers hs + nat io_threads\<rparr>)
      else (False, hs\<lparr>hs_running := False\<rparr>))"

definition server_stop :: "HookServer \<Rightarrow> HookServer" where
  "server_stop hs =
     (if \<not> hs_running hs then hs
      else hs\<lparr>hs_running := False, hs_listening := False, hs_work_guard := False, hs_workers := 0\<rparr>)"

end
