(* ===== verification/Transitions.thy ===== *)
theory Transitions
  imports Main
begin

text \<open>
  Runs of the concurrent components: a step relation labelled with events, its finite runs with the
  list of their events, and the arguments the components share: sums over threads, invariants over the
  history of a run, and bounds on the length of a run.
\<close>

inductive run :: "('s \<Rightarrow> 'e \<Rightarrow> 's \<Rightarrow> bool) \<Rightarrow> 's \<Rightarrow> 'e list \<Rightarrow> 's \<Rightarrow> bool" for step s where
  run_nil: "run step s [] s"
| run_snoc: "run step s es t \<Longrightarrow> step t e u \<Longrightarrow> run step s (es @ [e]) u"

inductive_simps run_nil_iff [simp]: "run step s [] t"

lemma run_one: "step s e t \<Longrightarrow> run step s [e] t"
  using run_snoc [OF run_nil, of step s e t] by simp

lemma run_append: "run step t fs u \<Longrightarrow> run step s es t \<Longrightarrow> run step s (es @ fs) u"
  by (induction rule: run.induct) (auto intro: run_snoc simp flip: append_assoc)

lemma run_Cons: "step s e t \<Longrightarrow> run step t es u \<Longrightarrow> run step s (e # es) u"
  using run_append [OF _ run_one] by fastforce

lemma run_split: "run step s (es @ fs) u \<Longrightarrow> \<exists>t. run step s es t \<and> run step t fs u"
proof (induction fs arbitrary: u rule: rev_induct)
  case (snoc f fs)
  then obtain t where t: "run step s (es @ fs) t" "step t f u"
    by (auto simp flip: append_assoc elim: run.cases)
  from snoc.IH [OF t(1)] t(2) show ?case by (auto intro: run_snoc)
qed auto

lemma run_last: "run step s (es @ [e]) u \<Longrightarrow> \<exists>t. run step s es t \<and> step t e u"
  by (auto elim: run.cases)

text \<open>A sum over the threads of a component changes by the thread that moves.\<close>

lemma sum_list_map_update:
  fixes f :: "'a \<Rightarrow> 'b :: comm_monoid_add"
  shows "i < length ws \<Longrightarrow>
    sum_list (map f (ws[i := w])) + f (ws ! i) = sum_list (map f ws) + f w"
proof (induction ws arbitrary: i)
  case (Cons v ws)
  then show ?case by (cases i) (auto simp: add_ac)
qed simp

text \<open>
  The interface of an invariant: it may speak of the events so far, holds at the start, and every
  step keeps it. Then it holds after every run.
\<close>

locale history_invariant =
  fixes start :: 's and step :: "'s \<Rightarrow> 'e \<Rightarrow> 's \<Rightarrow> bool" and inv :: "'e list \<Rightarrow> 's \<Rightarrow> bool"
  assumes inv_start: "inv [] start"
    and inv_step: "inv es s \<Longrightarrow> step s e t \<Longrightarrow> inv (es @ [e]) t"
begin

lemma inv_run: "run step start es s \<Longrightarrow> inv es s"
  by (induction rule: run.induct) (auto intro: inv_start inv_step)

end

text \<open>A relation whose steps decrease a measure has only short runs, and ends where it is stuck.\<close>

locale decreasing =
  fixes step :: "'s \<Rightarrow> 'e \<Rightarrow> 's \<Rightarrow> bool" and live :: "'s \<Rightarrow> bool" and weight :: "'s \<Rightarrow> nat"
  assumes live_step: "live s \<Longrightarrow> step s e t \<Longrightarrow> live t"
    and weight_step: "live s \<Longrightarrow> step s e t \<Longrightarrow> weight t < weight s"
begin

lemma run_bounded: "run step s es t \<Longrightarrow> live s \<Longrightarrow> live t \<and> length es + weight t \<le> weight s"
proof (induction rule: run.induct)
  case (run_snoc es t e u)
  then show ?case using live_step weight_step [of t e u] by fastforce
qed simp

lemma run_to_end:
  assumes "live s"
  shows "\<exists>es t. run step s es t \<and> (\<nexists>e u. step t e u)"
  using assms
proof (induction "weight s" arbitrary: s rule: less_induct)
  case less
  show ?case
  proof (cases "\<exists>e u. step s e u")
    case True
    then obtain e u where "step s e u" by blast
    then show ?thesis
      using less.hyps [OF weight_step [OF less.prems]] live_step [OF less.prems] run_Cons by metis
  next
    case False
    then show ?thesis by (intro exI [of _ "[]"] exI [of _ s]) simp
  qed
qed

end

end
