(* ===== verification/Hook_Listener.thy ===== *)
theory Hook_Listener
  imports Hook_Server Transitions
begin

text \<open>
  The life of the HTTP server (\<open>HookListener\<close> and \<open>HookServer\<close> of \<open>src/main/HookServer.cpp\<close>) as a
  labelled step relation: the accept loop, the sessions by the phase they are in, the worker threads
  inside \<open>io_context::run\<close>, and \<open>start\<close> and \<open>stop\<close>. Of Boost.Asio the model uses what its documentation
  says: \<open>run\<close> returns when nothing is outstanding and no work guard is held, or when the context is
  stopped; the context is then stopped until it is restarted, and a stopped context runs no handler;
  closing an acceptor ends its outstanding accept, with the error \<open>operation_aborted\<close> unless it had
  completed before. \<open>start\<close> and \<open>stop\<close> are called by one thread.
\<close>

section \<open>State\<close>

text \<open>The two halves of \<open>HookServer::stop\<close>: before and after it joins the worker threads.\<close>

definition stop_begin :: "HookServer \<Rightarrow> HookServer" where
  "stop_begin hs = hs\<lparr>hs_running := False, hs_listening := False, hs_work_guard := False\<rparr>"

definition stop_end :: "HookServer \<Rightarrow> HookServer" where
  "stop_end hs = hs\<lparr>hs_workers := 0\<rparr>"

lemma server_stop_halves: "hs_running hs \<Longrightarrow> server_stop hs = stop_end (stop_begin hs)"
  by (simp add: server_stop_def stop_end_def stop_begin_def)

record ServerRun =
  rs_server :: HookServer
  rs_open :: bool
  rs_accept :: bool
  rs_stopped :: bool
  rs_inside :: nat
  rs_sessions :: "session_phase list"
  rs_joining :: bool

text \<open>
  \<open>rs_open\<close> says that the acceptor is open, \<open>rs_accept\<close> that an accept is outstanding, \<open>rs_stopped\<close> that
  the context is stopped, \<open>rs_inside\<close> counts the threads inside \<open>run\<close>, and \<open>rs_joining\<close> says that
  \<open>stop\<close> waits for them.
\<close>

definition fresh_server :: ServerRun where
  "fresh_server =
     \<lparr>rs_server = new_HookServer, rs_open = False, rs_accept = False, rs_stopped = False, rs_inside = 0,
      rs_sessions = [], rs_joining = False\<rparr>"

text \<open>The phases in which a read or a write of the session is outstanding.\<close>

fun pending :: "session_phase \<Rightarrow> bool" where
  "pending Reading = True"
| "pending (Writing _) = True"
| "pending _ = False"

definition outstanding :: "ServerRun \<Rightarrow> bool" where
  "outstanding q \<longleftrightarrow> hs_work_guard (rs_server q) \<or> rs_accept q \<or> list_ex pending (rs_sessions q)"

definition serving :: "ServerRun \<Rightarrow> bool" where
  "serving q \<longleftrightarrow> 0 < rs_inside q \<and> \<not> rs_stopped q"

text \<open>
  The moves of a session: a completed read starts a write, waits for a callback or closes; a completed
  write reads again or closes; a callback starts a write.
\<close>

fun session_next :: "session_phase \<Rightarrow> session_phase \<Rightarrow> bool" where
  "session_next Reading (Writing _) = True"
| "session_next Reading Waiting = True"
| "session_next Reading Closed = True"
| "session_next (Writing keep_alive) Reading = keep_alive"
| "session_next (Writing _) Closed = True"
| "session_next Waiting (Writing _) = True"
| "session_next _ _ = False"

lemma on_read_next:
  "ss_phase (fst (fst (run_state (on_read J g t metrics time_s ec req ss sc repo) w))) = Terminated
   \<or> session_next Reading (ss_phase (fst (fst (run_state (on_read J g t metrics time_s ec req ss sc repo) w))))"
  by (auto simp: on_read_def State_Monad.bind_def split: prod.splits sum.splits option.splits)

lemma on_write_next:
  "ss_phase ss = Writing keep_alive \<Longrightarrow> session_next (Writing keep_alive) (ss_phase (on_write ec ss))"
  by (cases keep_alive) (auto simp: on_write_def)

section \<open>Steps\<close>

datatype server_event =
    Started bool | Accepted | Accept_failed | Accept_aborted | Moved nat session_phase
  | Stop_called | Left_run | Stop_returned

definition do_start :: "int \<Rightarrow> ServerRun \<Rightarrow> ServerRun" where
  "do_start io_threads q =
     q\<lparr>rs_server := snd (server_start True io_threads (rs_server q)), rs_open := True, rs_accept := True,
       rs_inside := rs_inside q + nat io_threads\<rparr>"

inductive server_step :: "ServerRun \<Rightarrow> server_event \<Rightarrow> ServerRun \<Rightarrow> bool" where
  start: "\<lbrakk>\<not> hs_running (rs_server q); \<not> rs_joining q\<rbrakk> \<Longrightarrow> server_step q (Started True) (do_start n q)"
| start_failed: "\<lbrakk>\<not> hs_running (rs_server q); \<not> rs_joining q\<rbrakk>
    \<Longrightarrow> server_step q (Started False) (q\<lparr>rs_server := snd (server_start False n (rs_server q))\<rparr>)"
| accepted: "\<lbrakk>rs_accept q; serving q\<rbrakk>
    \<Longrightarrow> server_step q Accepted (q\<lparr>rs_sessions := rs_sessions q @ [Reading], rs_accept := rs_open q\<rparr>)"
| accept_failed: "\<lbrakk>rs_accept q; serving q\<rbrakk> \<Longrightarrow> server_step q Accept_failed (q\<lparr>rs_accept := rs_open q\<rparr>)"
| accept_aborted: "\<lbrakk>rs_accept q; serving q; \<not> rs_open q\<rbrakk>
    \<Longrightarrow> server_step q Accept_aborted (q\<lparr>rs_accept := False\<rparr>)"
| session: "\<lbrakk>i < length (rs_sessions q); session_next (rs_sessions q ! i) ph; serving q\<rbrakk>
    \<Longrightarrow> server_step q (Moved i ph) (q\<lparr>rs_sessions := (rs_sessions q)[i := ph]\<rparr>)"
| stop: "hs_running (rs_server q)
    \<Longrightarrow> server_step q Stop_called
          (q\<lparr>rs_server := stop_begin (rs_server q), rs_open := False, rs_joining := True\<rparr>)"
| leave: "\<lbrakk>0 < rs_inside q; rs_stopped q \<or> \<not> outstanding q\<rbrakk>
    \<Longrightarrow> server_step q Left_run (q\<lparr>rs_inside := rs_inside q - 1, rs_stopped := True\<rparr>)"
| stop_return: "\<lbrakk>rs_joining q; rs_inside q = 0\<rbrakk>
    \<Longrightarrow> server_step q Stop_returned (q\<lparr>rs_server := stop_end (rs_server q), rs_joining := False\<rparr>)"

lemmas server_defs = do_start_def server_start_def stop_begin_def stop_end_def

section \<open>When \<open>stop\<close> returns\<close>

definition inv_join :: "server_event list \<Rightarrow> ServerRun \<Rightarrow> bool" where
  "inv_join es q \<longleftrightarrow> (rs_joining q \<longrightarrow>
     \<not> hs_running (rs_server q) \<and> \<not> hs_work_guard (rs_server q) \<and> \<not> rs_open q)"

interpretation joining: history_invariant fresh_server server_step inv_join
proof
  show "inv_join [] fresh_server" by (simp add: inv_join_def fresh_server_def)
  show "inv_join (es @ [e]) t" if "inv_join es s" "server_step s e t" for es s e t
    using that(2,1) by (induction rule: server_step.induct) (auto simp: inv_join_def server_defs)
qed

text \<open>Events after which no session has moved and none has come.\<close>

definition quiet :: "server_event list \<Rightarrow> bool" where
  "quiet es \<longleftrightarrow> list_all (\<lambda>e. case e of Moved _ _ \<Rightarrow> False | Accepted \<Rightarrow> False | _ \<Rightarrow> True) es"

lemma quiet_append [simp]: "quiet (es @ fs) \<longleftrightarrow> quiet es \<and> quiet fs"
  by (simp add: quiet_def)

lemma quiet_leaving: "quiet (replicate n Left_run)"
  by (induction n) (simp_all add: quiet_def)

definition blocked :: "ServerRun \<Rightarrow> bool" where
  "blocked q \<longleftrightarrow> serving q \<and> list_ex pending (rs_sessions q)"

text \<open>While a session waits for its peer, no worker leaves \<open>run\<close>.\<close>

definition inv_blocked :: "ServerRun \<Rightarrow> server_event list \<Rightarrow> ServerRun \<Rightarrow> bool" where
  "inv_blocked q0 es q \<longleftrightarrow> (blocked q0 \<longrightarrow> quiet es \<longrightarrow> blocked q \<and> Stop_returned \<notin> set es)"

interpretation waiting: history_invariant q0 server_step "inv_blocked q0" for q0
proof
  show "inv_blocked q0 [] q0" by (simp add: inv_blocked_def)
  show "inv_blocked q0 (es @ [e]) t" if "inv_blocked q0 es s" "server_step s e t" for es s e t
    using that(2,1)
    by (induction rule: server_step.induct)
      (auto simp: inv_blocked_def blocked_def serving_def outstanding_def quiet_def server_defs)
qed

text \<open>Without sessions in the way, the workers leave one after the other.\<close>

lemma leave_all:
  assumes "rs_stopped q \<or> \<not> outstanding q"
  shows "\<exists>r. run server_step q (replicate (rs_inside q) Left_run) r \<and> rs_inside r = 0
     \<and> rs_joining r = rs_joining q"
  using assms
proof (induction "rs_inside q" arbitrary: q)
  case 0
  then show ?case by (auto intro: run_nil)
next
  case (Suc n)
  let ?q = "q\<lparr>rs_inside := rs_inside q - 1, rs_stopped := True\<rparr>"
  have step: "server_step q Left_run ?q" using Suc.hyps(2) Suc.prems by (intro leave) auto
  have n: "n = rs_inside ?q" using Suc.hyps(2) by simp
  obtain r where r: "run server_step ?q (replicate (rs_inside ?q) Left_run) r" "rs_inside r = 0"
    "rs_joining r = rs_joining ?q"
    using Suc.hyps(1) [OF n] by auto
  have "run server_step q (replicate (rs_inside q) Left_run) r"
    using run_Cons [OF step r(1)] unfolding n [symmetric] Suc.hyps(2) [symmetric] by simp
  with r(2,3) show ?case by auto
qed

lemma abort_accept:
  assumes "inv_join es q" "rs_joining q" "\<not> list_ex pending (rs_sessions q)" "serving q"
  shows "\<exists>fs r. quiet fs \<and> run server_step q fs r \<and> \<not> outstanding r \<and> rs_joining r"
proof (cases "rs_accept q")
  case True
  then have "server_step q Accept_aborted (q\<lparr>rs_accept := False\<rparr>)"
    using assms by (intro accept_aborted) (auto simp: inv_join_def)
  then show ?thesis
    using assms by (intro exI [of _ "[Accept_aborted]"] exI [of _ "q\<lparr>rs_accept := False\<rparr>"])
      (auto simp: quiet_def outstanding_def inv_join_def intro: run_one)
next
  case False
  then show ?thesis
    using assms by (intro exI [of _ "[]"] exI [of _ q]) (auto simp: quiet_def outstanding_def inv_join_def)
qed

lemma stop_can_return:
  assumes "inv_join es q" "rs_joining q" "\<not> blocked q"
  shows "\<exists>fs r. quiet fs \<and> run server_step q (fs @ [Stop_returned]) r"
proof -
  obtain gs p where p: "quiet gs" "run server_step q gs p" "rs_stopped p \<or> \<not> outstanding p \<or> rs_inside p = 0"
    "rs_joining p"
  proof (cases "serving q")
    case True
    then show ?thesis using abort_accept [OF assms(1,2)] assms(3) that by (auto simp: blocked_def)
  next
    case False
    then show ?thesis using that [of "[]" q] assms(2) by (auto simp: serving_def quiet_def)
  qed
  have "\<exists>hs r. quiet hs \<and> run server_step p hs r \<and> rs_inside r = 0 \<and> rs_joining r"
  proof (cases "rs_inside p = 0")
    case True
    then show ?thesis using p(4) by (intro exI [of _ "[]"] exI [of _ p]) (auto simp: quiet_def)
  next
    case False
    with p(3) obtain r where "run server_step p (replicate (rs_inside p) Left_run) r" "rs_inside r = 0"
      "rs_joining r = rs_joining p"
      using leave_all [of p] by blast
    with p(4) quiet_leaving [of "rs_inside p"] show ?thesis by auto
  qed
  then obtain hs r where r: "quiet hs" "run server_step p hs r" "rs_inside r = 0" "rs_joining r" by blast
  have "run server_step q (gs @ hs) r" by (rule run_append [OF r(2) p(2)])
  from run_snoc [OF this stop_return [OF r(4,3)]] p(1) r(1) show ?thesis
    by (intro exI [of _ "gs @ hs"]) auto
qed

text \<open>
  C19. \<open>stop\<close> waits for the clients: once it has closed the listener, it can return without a move of a
  session exactly when no worker is inside \<open>run\<close>, the context is stopped, or no session is reading or
  writing. A client that keeps its connection open and sends nothing therefore holds \<open>stop\<close>, and with
  it the shutdown of the service, for as long as it likes.
\<close>

theorem stop_returns_iff_idle:
  assumes "run server_step fresh_server es q" "rs_joining q"
  shows "(\<exists>fs r. quiet fs \<and> run server_step q (fs @ [Stop_returned]) r)
    \<longleftrightarrow> rs_inside q = 0 \<or> rs_stopped q \<or> \<not> list_ex pending (rs_sessions q)"
proof -
  have "\<not> blocked q \<longleftrightarrow> rs_inside q = 0 \<or> rs_stopped q \<or> \<not> list_ex pending (rs_sessions q)"
    by (auto simp: blocked_def serving_def)
  moreover have "\<not> blocked q" if "quiet fs" "run server_step q (fs @ [Stop_returned]) r" for fs r
    using waiting.inv_run [OF that(2)] that(1) by (auto simp: inv_blocked_def quiet_def)
  ultimately show ?thesis
    using stop_can_return [OF joining.inv_run [OF assms(1)] assms(2)] by blast
qed

text \<open>A server with one worker, one silent client, and a thread that stops it.\<close>

lemma silent_client_run:
  "\<exists>q. run server_step fresh_server [Started True, Accepted, Stop_called] q \<and> rs_joining q
     \<and> rs_inside q = 1 \<and> \<not> rs_stopped q \<and> rs_sessions q = [Reading]"
proof -
  let ?q1 = "do_start 1 fresh_server"
  let ?q2 = "?q1\<lparr>rs_sessions := rs_sessions ?q1 @ [Reading], rs_accept := rs_open ?q1\<rparr>"
  let ?q3 = "?q2\<lparr>rs_server := stop_begin (rs_server ?q2), rs_open := False, rs_joining := True\<rparr>"
  note d = fresh_server_def new_HookServer_def serving_def server_defs
  have "server_step fresh_server (Started True) ?q1" by (rule start) (simp_all add: d)
  moreover have "server_step ?q1 Accepted ?q2" by (rule accepted) (simp_all add: d)
  moreover have "server_step ?q2 Stop_called ?q3" by (rule stop) (simp add: d)
  ultimately have "run server_step fresh_server [Started True, Accepted, Stop_called] ?q3"
    by (blast intro: run_Cons run_nil)
  then show ?thesis by (intro exI [of _ ?q3]) (simp add: d)
qed

theorem stop_returns_iff_idle_witness:
  "\<exists>es q. run server_step fresh_server es q \<and> rs_joining q
     \<and> (\<nexists>fs r. quiet fs \<and> run server_step q (fs @ [Stop_returned]) r)"
proof -
  obtain q where q: "run server_step fresh_server [Started True, Accepted, Stop_called] q" "rs_joining q"
    "rs_inside q = 1" "\<not> rs_stopped q" "rs_sessions q = [Reading]"
    using silent_client_run by blast
  from stop_returns_iff_idle [OF q(1,2)] q show ?thesis by auto
qed

section \<open>A server starts once\<close>

fun handled :: "server_event \<Rightarrow> bool" where
  "handled Accepted = True" | "handled Accept_failed = True" | "handled Accept_aborted = True"
| "handled (Moved _ _) = True" | "handled _ = False"

definition inv_deaf :: "ServerRun \<Rightarrow> server_event list \<Rightarrow> ServerRun \<Rightarrow> bool" where
  "inv_deaf q0 es q \<longleftrightarrow> (rs_stopped q0 \<longrightarrow> rs_stopped q \<and> list_all (\<lambda>e. \<not> handled e) es)"

interpretation deaf: history_invariant q0 server_step "inv_deaf q0" for q0
proof
  show "inv_deaf q0 [] q0" by (simp add: inv_deaf_def)
  show "inv_deaf q0 (es @ [e]) t" if "inv_deaf q0 es s" "server_step s e t" for es s e t
    using that(2,1)
    by (induction rule: server_step.induct) (auto simp: inv_deaf_def serving_def server_defs)
qed

text \<open>
  A server that was stopped cannot be used again: once a worker has left \<open>run\<close>, the context stays
  stopped, since nothing restarts it. A later \<open>start\<close> returns \<open>true\<close> with the listener open, but no
  connection is ever accepted and no session moves.
\<close>

theorem stopped_server_deaf:
  assumes "run server_step fresh_server (es @ Left_run # fs) q"
  shows "list_all (\<lambda>e. \<not> handled e) fs \<and> rs_stopped q
    \<and> (hs_running (rs_server q) \<or> fst (server_start True n (rs_server q)))"
proof -
  obtain p p' where p: "server_step p Left_run p'" "run server_step p' fs q"
    using run_split [of server_step fresh_server "es @ [Left_run]" fs q] run_last assms by force
  then have "rs_stopped p'" by cases auto
  with deaf.inv_run [OF p(2)] show ?thesis by (auto simp: inv_deaf_def server_start_def)
qed

lemma restart_run:
  "\<exists>q. run server_step fresh_server
     ([Started True, Stop_called, Accept_aborted] @ Left_run # [Stop_returned, Started True]) q
     \<and> hs_running (rs_server q) \<and> rs_open q"
proof -
  let ?q1 = "do_start 1 fresh_server"
  let ?q2 = "?q1\<lparr>rs_server := stop_begin (rs_server ?q1), rs_open := False, rs_joining := True\<rparr>"
  let ?q3 = "?q2\<lparr>rs_accept := False\<rparr>"
  let ?q4 = "?q3\<lparr>rs_inside := rs_inside ?q3 - 1, rs_stopped := True\<rparr>"
  let ?q5 = "?q4\<lparr>rs_server := stop_end (rs_server ?q4), rs_joining := False\<rparr>"
  let ?q6 = "do_start 1 ?q5"
  note d = fresh_server_def new_HookServer_def serving_def outstanding_def server_defs
  have "server_step fresh_server (Started True) ?q1" by (rule start) (simp_all add: d)
  moreover have "server_step ?q1 Stop_called ?q2" by (rule stop) (simp add: d)
  moreover have "server_step ?q2 Accept_aborted ?q3" by (rule accept_aborted) (simp_all add: d)
  moreover have "server_step ?q3 Left_run ?q4" by (rule leave) (simp_all add: d)
  moreover have "server_step ?q4 Stop_returned ?q5" by (rule stop_return) (simp_all add: d)
  moreover have "server_step ?q5 (Started True) ?q6" by (rule start) (simp_all add: d)
  ultimately have "run server_step fresh_server
      ([Started True, Stop_called, Accept_aborted] @ Left_run # [Stop_returned, Started True]) ?q6"
    by (simp only: append_Cons append_Nil) (blast intro: run_Cons run_nil)
  then show ?thesis by (intro exI [of _ ?q6]) (simp add: d)
qed

theorem stopped_server_deaf_witness:
  "\<exists>q. run server_step fresh_server
     ([Started True, Stop_called, Accept_aborted] @ Left_run # [Stop_returned, Started True]) q
     \<and> hs_running (rs_server q) \<and> rs_open q \<and> rs_stopped q"
  using restart_run stopped_server_deaf by blast

end
