(* ===== verification/Hook_Properties.thy ===== *)
theory Hook_Properties
  imports Hook_Server
begin

text \<open>
  What a media server can rely on when it calls the gateway: which codes a hook can get, that every
  request is answered, what an answer with code zero means, and where a connection falls silent.
\<close>

section \<open>Codes\<close>

lemma outcome_any: "outcome view K m (\<lambda>_ _. True)"
  by (simp add: outcome_def)

text \<open>A result whose message none of the search words of \<open>to_response\<close> occurs in, or a success.\<close>

definition plain :: "SchedulerResult \<Rightarrow> bool" where
  "plain r \<longleftrightarrow> sr_error r = SUCCESS
     \<or> \<not> has_substr ''auth'' (sr_message r) \<and> \<not> has_substr ''Identity'' (sr_message r)
       \<and> \<not> has_substr ''not found'' (sr_message r)"

lemma plain_failed [simp]:
  "plain (failed AUTH_FAILED msg_auth_refused)" "plain (failed ALREADY_PUBLISHING msg_already)"
  "plain (failed INTERNAL_ERROR ''Internal error'')" "plain (failed NO_PUBLISHER msg_no_pub)"
  "plain (failed STATE_STORE_ERROR msg_store)"
  "plain \<lparr>sr_error = INTERNAL_ERROR, sr_task = None, sr_message = msg_missing\<rparr>"
  "plain \<lparr>sr_error = SUCCESS, sr_task = x, sr_message = m\<rparr>"
  by (code_simp, code_simp, code_simp, code_simp, code_simp, code_simp, simp add: plain_def)

lemma plain_response:
  "plain r \<Longrightarrow> zlm_code (to_response (mapResult r)) = (if sr_error r = SUCCESS then ZLM_SUCCESS else ZLM_INTERNAL_ERROR)"
  by (auto simp: plain_def mapResult_def to_response_def allow_def deny_def)

abbreviation all_results :: "('w, 'a) state \<Rightarrow> ('a \<Rightarrow> bool) \<Rightarrow> bool" where
  "all_results m P \<equiv> outcome (\<lambda>_. ()) () m (\<lambda>x _. P x)"

lemma all_resultsD: "all_results m P \<Longrightarrow> P (fst (run_state m w))"
  by (simp add: outcome_def)

lemma onPublish_auth_plain:
  "all_results (onPublish_auth M now_ns now_ms s c tok proto sc code) (\<lambda>x. plain (fst x))"
  by (auto simp: onPublish_auth_def Let_def case_prod_beta
      intro!: outcome_bind [OF outcome_any] outcome_return split: sum.splits bool.splits)

lemma onPlay_auth_plain:
  "all_results (onPlay_auth M now_ns now_ms s c tok proto sc code) (\<lambda>x. plain (fst x))"
  by (auto simp: onPlay_auth_def Let_def case_prod_beta
      intro!: outcome_bind [OF outcome_any] outcome_return split: sum.splits bool.splits option.splits)

lemma checkAuthAsync_all:
  assumes "\<And>code. all_results (cb code) P"
  shows "all_results (checkAuthAsync am I repo fate req cb)
    (\<lambda>x. (\<forall>y. fst x = Inr (Some y) \<longrightarrow> P y)
       \<and> (\<not> am_shutdown am \<longrightarrow> fate \<noteq> Skipped \<longrightarrow> fst x \<noteq> Inr None))"
proof -
  let ?Q = "\<lambda>x. (\<forall>y. fst x = Inr (Some y) \<longrightarrow> P y) \<and> fst x \<noteq> Inr None"
  have run: "all_results (do { x \<leftarrow> cb code; ret (Inr (Some x), repo') }) ?Q" for code repo'
    by (rule outcome_bind [OF assms]) (simp add: outcome_return)
  have "all_results (do { r \<leftarrow> m; x \<leftarrow> cb (fst r); ret (Inr (Some x), snd r) }) ?Q" for m
    by (rule outcome_bind [OF outcome_any]) (simp add: run)
  note ran = outcome_mono [OF this]
  show ?thesis
    by (auto simp: checkAuthAsync_def intro!: ran outcome_return split: pool_fate.splits)
qed

lemma bindE_allow: "all_results (bindE m (\<lambda>_. ok allow)) (\<lambda>x. \<forall>d. x = Inr d \<longrightarrow> d = allow)"
  by (rule outcome_bindE [OF outcome_any]) auto

lemma onPublish_plain:
  "all_results (onPublish M am I repo fate now_ns now_ms s c tok proto sc)
    (\<lambda>x. (\<forall>r. fst x = Inr (Some r) \<longrightarrow> plain r)
       \<and> (\<not> am_shutdown am \<longrightarrow> fate \<noteq> Skipped \<longrightarrow> fst x \<noteq> Inr None))"
  unfolding onPublish_def Let_def validateRequest_def
  by (auto intro!: outcome_bind [OF checkAuthAsync_all [OF onPublish_auth_plain]] outcome_return
      split: sum.splits option.splits prod.splits)

lemma onPlay_plain:
  "all_results (onPlay M am I repo fate now_ns now_ms s c tok proto sc)
    (\<lambda>x. (\<forall>r. fst x = Inr (Some r) \<longrightarrow> plain r)
       \<and> (\<not> am_shutdown am \<longrightarrow> fate \<noteq> Skipped \<longrightarrow> fst x \<noteq> Inr None))"
  unfolding onPlay_def Let_def validateRequest_def
  by (auto intro!: outcome_bind [OF checkAuthAsync_all [OF onPlay_auth_plain]] outcome_return
      split: sum.splits option.splits prod.splits)

text \<open>The codes a routed hook can get, and when it is answered.\<close>

definition routed_ok :: "('w, 'r) Gate \<Rightarrow> Moment \<Rightarrow> HookAction \<Rightarrow> exn + ZlmHookResponse option \<Rightarrow> bool" where
  "routed_ok g t act x \<longleftrightarrow>
     (\<not> am_shutdown (g_auth g) \<longrightarrow> at_fate t \<noteq> Skipped \<longrightarrow> x \<noteq> Inr None)
     \<and> (\<forall>resp. x = Inr (Some resp) \<longrightarrow>
          (if act = StreamNotFound \<or> act = UnknownAction then zlm_code resp = ZLM_UNSUPPORTED_ACTION
           else zlm_code resp = ZLM_SUCCESS \<or> zlm_code resp = ZLM_INTERNAL_ERROR))"

lemma routeHook_codes:
  "all_results (routeHook g t hook sc repo) (\<lambda>x. routed_ok g t (hook_action hook) (fst x))"
proof -
  have decided: "routed_ok g t act (map_sum id (map_option to_response) (map_sum id (map_option mapResult) x))"
    if "\<forall>r. x = Inr (Some r) \<longrightarrow> plain r" "\<not> am_shutdown (g_auth g) \<longrightarrow> at_fate t \<noteq> Skipped \<longrightarrow> x \<noteq> Inr None"
      "act \<noteq> StreamNotFound" "act \<noteq> UnknownAction" for x act
    using that by (cases x) (auto simp: routed_ok_def plain_response split: if_splits)
  have ended: "routed_ok g t act (map_sum id (\<lambda>d. Some (to_response d)) x)"
    if "\<forall>d. x = Inr d \<longrightarrow> d = allow" "act \<noteq> StreamNotFound" "act \<noteq> UnknownAction" for x act
    using that by (cases x) (auto simp: routed_ok_def to_response_def allow_def)
  have unsupported: "routed_ok g t act (Inr (Some \<lparr>zlm_code = ZLM_UNSUPPORTED_ACTION, zlm_message = m\<rparr>))"
    if "act = StreamNotFound \<or> act = UnknownAction" for act m
    using that by (auto simp: routed_ok_def)
  show ?thesis
    unfolding routeHook_def handlePublish_def handlePlay_def handlePublishDone_def handlePlayDone_def
      processPublish_def processPlay_def processPublishDone_def processPlayDone_def
    by (auto intro!: outcome_bind [OF onPublish_plain] outcome_bind [OF onPlay_plain] outcome_return decided ended
        outcome_bind [OF bindE_allow]
        unsupported split: HookAction.splits)
qed



definition mem_gate :: "(mem, HybridAuthRepository) Gate" where
  "mem_gate =
     \<lparr>g_state = RedisStreamStateManager (ready mem_redis), g_auth = \<lparr>am_shutdown = False\<rparr>,
      g_repo = hybrid_repository demo_json (ready mem_redis) (table_db demo_rows)\<rparr>"

definition demo_moment :: Moment where
  "demo_moment = \<lparr>at_ns = demo_ns, at_ms = demo_now, at_fate = Ran\<rparr>"

definition tokenless :: ZlmHookRequest where
  "tokenless = demo_hook\<lparr>hook_action := Publish, hook_params := Map.empty\<rparr>"

lemma tokenless_run:
  "fst (fst (run_state (routeHook mem_gate demo_moment tokenless demo_scheduler repo) w))
   = Inr (Some \<lparr>zlm_code = ZLM_INTERNAL_ERROR, zlm_message = msg_missing\<rparr>)"
proof -
  have "to_response (mapResult \<lparr>sr_error = INTERNAL_ERROR, sr_task = None, sr_message = msg_missing\<rparr>)
      = \<lparr>zlm_code = ZLM_INTERNAL_ERROR, zlm_message = msg_missing\<rparr>"
    by code_simp
  then show ?thesis
    by (simp add: routeHook_def tokenless_def demo_hook_def handlePublish_def processPublish_def onPublish_def
        validateRequest_def get_token_def State_Monad.bind_def)
qed


section \<open>Answers\<close>

text \<open>The requests that reach the controller, with the hook it receives.\<close>

definition hook_request :: "json_lib \<Rightarrow> HttpRequest \<Rightarrow> ZlmHookRequest \<Rightarrow> bool" where
  "hook_request J req hook \<longleftrightarrow>
     (let action = map_path_to_action (takeWhile (\<lambda>c. c \<noteq> CHR ''?'') (req_target req)) in
      req_method req = POST \<and> action \<noteq> UnknownAction
      \<and> (\<exists>j h. json_parse J (req_body req) = Some j \<and> hook_from_json J j = Some h
            \<and> hook = h\<lparr>hook_action := action\<rparr>))"

lemma handle_hook:
  assumes "hook_request J req hook"
  shows "handle_request J g t metrics time_s req responded sc repo = do {
     r \<leftarrow> routeHook g t hook sc repo;
     ret (let (out, resp) = hook_reply J req responded (fst r) in (Inr out, resp, snd r))
   }"
  using assms by (auto simp: hook_request_def handle_request_def Let_def)

lemma send_response_simps [simp]:
  "http_status (send_response J req h b m) = h"
  "resp_keep_alive (send_response J req h b m) = req_keep_alive req"
  by (simp_all add: send_response_def reply_def)

lemma hook_reply_answers:
  assumes "routed_ok g t act x" "\<not> am_shutdown (g_auth g)" "at_fate t \<noteq> Skipped"
  shows "\<exists>out resp. hook_reply J req False x = (Some out, resp)
    \<and> http_status out \<in> {200, 400} \<and> resp_keep_alive out = req_keep_alive req"
proof (cases "\<exists>y. x = Inr (Some y)")
  case True
  then obtain y where y: "x = Inr (Some y)" ..
  then have "zlm_code y \<in> {ZLM_SUCCESS, ZLM_INTERNAL_ERROR, ZLM_UNSUPPORTED_ACTION}"
    using assms(1) by (auto simp: routed_ok_def split: if_splits)
  then show ?thesis using y by (auto simp: hook_reply_def)
next
  case False
  then show ?thesis
    using assms by (auto simp: hook_reply_def routed_ok_def split: sum.splits option.splits exn.splits)
qed

lemma handle_answers:
  assumes "\<not> am_shutdown (g_auth g)" "at_fate t \<noteq> Skipped" "req_method req \<noteq> GET"
  shows "all_results (handle_request J g t metrics time_s req False sc repo)
    (\<lambda>x. \<exists>out. fst x = Inr (Some out) \<and> http_status out \<in> {200, 400, 404, 405}
       \<and> resp_keep_alive out = req_keep_alive req)"
proof (cases "\<exists>hook. hook_request J req hook")
  case True
  then obtain hook where hook: "hook_request J req hook" ..
  show ?thesis
    unfolding handle_hook [OF hook]
  proof (rule outcome_bind [OF routeHook_codes])
    fix x L assume "routed_ok g t (hook_action hook) (fst x)"
    from hook_reply_answers [OF this assms(1,2), of J req]
    show "outcome (\<lambda>_. ()) L (ret (let (out, resp) = hook_reply J req False (fst x) in (Inr out, resp, snd x)))
      (\<lambda>x _. \<exists>out. fst x = Inr (Some out) \<and> http_status out \<in> {200, 400, 404, 405}
         \<and> resp_keep_alive out = req_keep_alive req)"
      by (auto intro!: outcome_return)
  qed
next
  case False
  then show ?thesis
    using assms(3)
    by (auto simp: hook_request_def handle_request_def Let_def intro!: outcome_return split: option.splits)
qed

text \<open>
  C24. The first request of a connection other than a GET is answered: as long as the authentication
  manager is not shut down and the pool does not drop the task, reading it starts exactly one write,
  with status 200, 400, 404 or 405, whatever the method, path or body, and however the store, the
  database or the pool fail.
\<close>

theorem first_request_answered:
  assumes "\<not> am_shutdown (g_auth g)" "at_fate t \<noteq> Skipped" "req_method req \<noteq> GET" "\<not> ss_responded ss"
  shows "\<exists>out. ss_sent (fst (fst (run_state (on_read J g t metrics time_s IoOk req ss sc repo) w))) = ss_sent ss @ [out]
    \<and> ss_phase (fst (fst (run_state (on_read J g t metrics time_s IoOk req ss sc repo) w)))
        = Writing (req_keep_alive req)
    \<and> http_status out \<in> {200, 400, 404, 405}"
proof -
  have "all_results (on_read J g t metrics time_s IoOk req ss sc repo)
    (\<lambda>x. \<exists>out. ss_sent (fst x) = ss_sent ss @ [out] \<and> ss_phase (fst x) = Writing (req_keep_alive req)
       \<and> http_status out \<in> {200, 400, 404, 405})"
    unfolding on_read_def using assms(4)
    by (auto intro!: outcome_bind [OF handle_answers [OF assms(1-3)]] outcome_return)
  then show ?thesis by (simp add: outcome_def)
qed

definition demo_post :: "string \<Rightarrow> HttpRequest" where
  "demo_post path = \<lparr>req_method = POST, req_target = path, req_body = ''{hook}'', req_keep_alive = True\<rparr>"

theorem first_request_answered_witness:
  "\<exists>out. ss_sent (fst (fst (run_state (on_read demo_json mem_gate demo_moment JNull 0 IoOk
        (demo_post ''/index/hook/on_publish'') new_Session demo_scheduler
        (new_HybridAuthRepository (ready mem_redis))) []))) = ss_sent new_Session @ [out]
    \<and> ss_phase (fst (fst (run_state (on_read demo_json mem_gate demo_moment JNull 0 IoOk
        (demo_post ''/index/hook/on_publish'') new_Session demo_scheduler
        (new_HybridAuthRepository (ready mem_redis))) [])))
        = Writing (req_keep_alive (demo_post ''/index/hook/on_publish''))
    \<and> http_status out \<in> {200, 400, 404, 405}"
  by (rule first_request_answered) (simp_all add: mem_gate_def demo_moment_def demo_post_def new_Session_def)

section \<open>A kept-alive connection falls silent\<close>

lemma read_hook:
  assumes "hook_request J req hook" "run_state (routeHook g t hook sc repo) w = ((Inr x, sc', repo'), w')"
  shows "run_state (on_read J g t metrics time_s IoOk req ss sc repo) w =
    ((case hook_reply J req (ss_responded ss) (Inr x) of
        (None, resp) \<Rightarrow> ss\<lparr>ss_phase := Waiting, ss_responded := resp\<rparr>
      | (Some out, resp) \<Rightarrow> ss\<lparr>ss_phase := Writing (resp_keep_alive out), ss_responded := resp,
                              ss_sent := ss_sent ss @ [out]\<rparr>, sc', repo'), w')"
  unfolding on_read_def handle_hook [OF assms(1)]
  using assms(2) by (auto simp: State_Monad.bind_def Let_def split: prod.splits option.splits)

text \<open>
  C26. A connection answers one hook: on a connection that is kept alive, the second hook that reaches
  the controller has its effect on the store and the scheduler, but no answer is ever written and the
  session waits without a pending operation, because the flag that guards against answering twice is
  never cleared between requests.
\<close>

theorem second_hook_unanswered:
  assumes "hook_request J req1 hook1" "hook_request J req2 hook2" "req_keep_alive req1"
    and "run_state (routeHook g t1 hook1 sc repo) w = ((Inr (Some resp1), sc1, repo1), w1)"
    and "run_state (routeHook g t2 hook2 sc1 repo1) w1 = ((Inr x2, sc2, repo2), w2)"
  shows "\<exists>out. run_state (serve J g metrics time_s [(req1, t1), (req2, t2)] new_Session sc repo) w =
    ((\<lparr>ss_phase = Waiting, ss_responded = True, ss_sent = [out]\<rparr>, sc2, repo2), w2)"
proof -
  obtain h b where hb: "map_to_http (zlm_code resp1) = (h, b)" by fastforce
  let ?out = "send_response J req1 h b (zlm_message resp1)"
  have first: "run_state (on_read J g t1 metrics time_s IoOk req1 new_Session sc repo) w =
      ((\<lparr>ss_phase = Writing True, ss_responded = True, ss_sent = [?out]\<rparr>, sc1, repo1), w1)"
    unfolding read_hook [OF assms(1,4)]
    using assms(3) by (simp add: hook_reply_def new_Session_def hb)
  have second: "run_state (on_read J g t2 metrics time_s IoOk req2
        \<lparr>ss_phase = Reading, ss_responded = True, ss_sent = [?out]\<rparr> sc1 repo1) w1 =
      ((\<lparr>ss_phase = Waiting, ss_responded = True, ss_sent = [?out]\<rparr>, sc2, repo2), w2)"
    unfolding read_hook [OF assms(2,5)] by (simp add: hook_reply_def split: option.splits)
  show ?thesis
    using first second by (auto simp: State_Monad.bind_def on_write_def new_Session_def)
qed

definition hook_json :: json_lib where
  "hook_json = table_json [(demo_hook_json, ''{hook}'')]"

definition probe :: HttpRequest where
  "probe = demo_post ''/index/hook/on_stream_not_found''"

lemma probe_hook: "hook_request hook_json probe (demo_hook\<lparr>hook_action := StreamNotFound\<rparr>)"
proof -
  have "hook_from_json hook_json demo_hook_json = hook_from_json (table_json []) demo_hook_json"
    by (simp add: hook_from_json_def decode_params_def hook_json_def table_json_def demo_hook_json_def
        json_find_def)
  moreover have "json_parse hook_json ''{hook}'' = Some demo_hook_json"
    by (simp add: hook_json_def table_json_def)
  ultimately show ?thesis
    by (simp add: hook_request_def probe_def demo_post_def map_path_to_action_def demo_hook_decodes)
qed

theorem second_hook_unanswered_witness:
  "\<exists>out. run_state (serve hook_json mem_gate JNull 0 [(probe, demo_moment), (probe, demo_moment)] new_Session
      demo_scheduler (new_HybridAuthRepository (ready mem_redis))) [] =
    ((\<lparr>ss_phase = Waiting, ss_responded = True, ss_sent = [out]\<rparr>, demo_scheduler,
      new_HybridAuthRepository (ready mem_redis)), [])"
  by (rule second_hook_unanswered [OF probe_hook probe_hook])
    (simp_all add: probe_def demo_post_def routeHook_def)

section \<open>From the hook to the registry\<close>

lemma mapped_Some: "map_sum id (map_option f) x = Inr (Some y) \<longleftrightarrow> (\<exists>r. x = Inr (Some r) \<and> y = f r)"
  by (cases x) auto

lemma decision_Allow: "decision (mapResult r) = Allow \<longleftrightarrow> isSuccess r"
  by (auto simp: mapResult_def deny_def allow_def isSuccess_def)

lemma publish_hook_outcome:
  assumes "gate_backend R view D rows col_eq" "json_roundtrip J" "cache_ok J H K" "represents K \<rho>"
    and "\<And>sk cid tok. authorised col_eq T sk cid tok \<Longrightarrow> H sk cid tok"
    and "hook_action hook = Publish"
    and "registrable \<rho> (publish_task (stream_key hook) (hook_client_id hook) (get_token hook)
           (hook_protocol hook) (at_ns t) (sc\<lparr>totalPublishReq := totalPublishReq sc + 1\<rparr>))"
  shows "outcome (\<lambda>w. (view w, rows w)) (K, T)
    (routeHook \<lparr>g_state = RedisStreamStateManager (ready R), g_auth = am,
                g_repo = hybrid_repository J (ready R) D\<rparr> t hook sc repo)
    (\<lambda>x LU. (\<exists>\<sigma>. represents (fst LU) \<sigma>)
       \<and> (\<forall>resp. fst x = Inr (Some resp) \<longrightarrow> zlm_code resp = ZLM_SUCCESS \<longrightarrow>
            (\<exists>r. publish_granted H \<rho> (stream_key hook) (hook_client_id hook) (get_token hook) r (fst LU))))"
proof -
  let ?g = "\<lparr>g_state = RedisStreamStateManager (ready R), g_auth = am, g_repo = hybrid_repository J (ready R) D\<rparr>"
  let ?granted = "\<lambda>L. \<exists>r. publish_granted H \<rho> (stream_key hook) (hook_client_id hook) (get_token hook) r L"
  have sound: "outcome (\<lambda>w. (view w, rows w)) (K, T) (processPublish ?g t hook sc repo)
    (\<lambda>x LU. (\<exists>\<sigma>. represents (fst LU) \<sigma>)
       \<and> (\<forall>d. fst x = Inr (Some d) \<longrightarrow> decision d = Allow \<longrightarrow> ?granted (fst LU)))"
    unfolding processPublish_def Gate.simps
    by (rule outcome_bind [OF gate_backend.onPublish_sound [OF assms(1), OF assms(2-5) assms(7)]], assumption,
        rule outcome_return) (auto simp: mapped_Some decision_Allow)
  have "decision d = Allow" if "zlm_code (to_response d) = ZLM_SUCCESS" for d
    using that by (simp add: to_response_def split: if_splits)
  then show ?thesis
    unfolding routeHook_def assms(6) HookAction.case handlePublish_def
    by (intro outcome_bind [OF sound] outcome_return) (auto simp: mapped_Some)
qed

definition demo_publish :: ZlmHookRequest where
  "demo_publish = demo_hook\<lparr>hook_action := Publish\<rparr>"

lemma demo_publish_fields:
  "stream_key demo_publish = ''v/live/s1''" "hook_client_id demo_publish = ''c1''"
  "get_token demo_publish = ''tok''" "hook_protocol demo_publish = RTMP" "hook_action demo_publish = Publish"
  by (simp_all add: demo_publish_def demo_hook_def stream_key_def get_token_def)

end
