(* ===== verification/Std_Double.thy ===== *)
theory Std_Double
  imports Complex_Main Sg_Prelude "HOL-Library.Log_Nat"
begin

text \<open>
  \<open>std::stod\<close>, on which the floating-point settings rest: the number at the start of a text, and its
  conversion to a double. A double is a binary64 number of IEEE 754, with sign, significand and
  exponent; the conversion is that of the C library, correctly rounded to nearest, with ties to even.
\<close>

section \<open>Doubles\<close>

datatype double = Finite bool nat int | Infinite bool | NaN bool

text \<open>A finite double is \<open>m * 2 powi e\<close>, normal or subnormal; its encoding is unique.\<close>

definition encodes :: "nat \<Rightarrow> int \<Rightarrow> bool" where
  "encodes m e \<longleftrightarrow> m < 2 ^ 53 \<and> - 1074 \<le> e \<and> e \<le> 971 \<and> (2 ^ 52 \<le> m \<or> e = - 1074)"

abbreviation magnitude :: "nat \<Rightarrow> int \<Rightarrow> real" where
  "magnitude m e \<equiv> real m * 2 powi e"

section \<open>The text of a number\<close>

text \<open>
  After white space and a sign: an infinity or a NaN in letters of either case, a hexadecimal number
  with a binary exponent, or a decimal one. What follows is ignored; so is an exponent mark without
  digits, and an \<open>0x\<close> that no digit follows reads as the number zero.
\<close>

datatype numeral_text = Fraction nat nat | Inf_text | Nan_text

definition scan_sign :: "string \<Rightarrow> bool \<times> string" where
  "scan_sign s =
     (case s of
        [] \<Rightarrow> (False, s)
      | c # t \<Rightarrow> if c = CHR ''-'' then (True, t) else if c = CHR ''+'' then (False, t) else (False, s))"

definition hex_val :: "char \<Rightarrow> nat" where
  "hex_val c = (if is_digit c then digit_val c else of_char (to_lower c) - 87)"

definition is_hex :: "char \<Rightarrow> bool" where
  "is_hex c \<longleftrightarrow> is_digit c \<or> 97 \<le> (of_char (to_lower c) :: nat) \<and> (of_char (to_lower c) :: nat) \<le> 102"

definition scan_digits :: "(char \<Rightarrow> bool) \<Rightarrow> string \<Rightarrow> string \<times> string \<times> string" where
  "scan_digits dig s =
     (let whole = takeWhile dig s; rest = dropWhile dig s
      in if take 1 rest = ''.''
         then (whole, takeWhile dig (tl rest), dropWhile dig (tl rest)) else (whole, [], rest))"

definition scan_exponent :: "char \<Rightarrow> string \<Rightarrow> int" where
  "scan_exponent mark s =
     (case s of
        [] \<Rightarrow> 0
      | c # t \<Rightarrow>
          if to_lower c \<noteq> mark then 0
          else let (neg, u) = scan_sign t; k = int (dec_val (takeWhile is_digit u)) in if neg then - k else k)"

definition fraction :: "nat \<Rightarrow> nat \<Rightarrow> int \<Rightarrow> numeral_text" where
  "fraction b m k = (if 0 \<le> k then Fraction (m * b ^ nat k) 1 else Fraction m (b ^ nat (- k)))"

definition scan_decimal :: "string \<Rightarrow> numeral_text option" where
  "scan_decimal s =
     (let (whole, part, rest) = scan_digits is_digit s
      in if whole @ part = [] then None
         else Some (fraction 10 (dec_val (whole @ part)) (scan_exponent CHR ''e'' rest - int (length part))))"

definition scan_hex :: "string \<Rightarrow> numeral_text option" where
  "scan_hex s =
     (let (whole, part, rest) = scan_digits is_hex s
      in if whole @ part = [] then None
         else Some (fraction 2 (foldl (\<lambda>a c. 16 * a + hex_val c) 0 (whole @ part))
                (scan_exponent CHR ''p'' rest - 4 * int (length part))))"

definition scan_double :: "string \<Rightarrow> (bool \<times> numeral_text) option" where
  "scan_double s =
     (let (neg, t) = scan_sign (dropWhile is_space s); word = map to_lower (take 3 t) in
      map_option (Pair neg)
        (if word = ''inf'' then Some Inf_text
         else if word = ''nan'' then Some Nan_text
         else if take 2 word = ''0x'' \<and> scan_hex (drop 2 t) \<noteq> None then scan_hex (drop 2 t)
         else scan_decimal t))"

section \<open>Rounding\<close>

text \<open>
  The fraction \<open>num / den\<close> in units of \<open>2 powi e\<close>, exactly and rounded; and the position of its
  leading bit.
\<close>

definition units :: "nat \<Rightarrow> nat \<Rightarrow> int \<Rightarrow> nat \<times> nat" where
  "units num den e = (if 0 \<le> e then (num, den * 2 ^ nat e) else (num * 2 ^ nat (- e), den))"

definition round_half_even :: "nat \<times> nat \<Rightarrow> nat" where
  "round_half_even nd =
     (let (n, d) = nd; q = n div d; r = n mod d
      in if 2 * r < d \<or> 2 * r = d \<and> even q then q else q + 1)"

definition leading_bit :: "nat \<Rightarrow> nat \<Rightarrow> int" where
  "leading_bit num den =
     (let k = int (floorlog 2 num) - int (floorlog 2 den); (n, d) = units num den k
      in if d \<le> n then k else k - 1)"

text \<open>
  The error \<open>ERANGE\<close>, which \<open>std::stod\<close> turns into \<open>std::out_of_range\<close>: the rounded value is
  too large, or it is inexact and too small for a normal number even with an unbounded exponent.
\<close>

definition to_double :: "bool \<Rightarrow> nat \<Rightarrow> nat \<Rightarrow> exn + double" where
  "to_double neg num den =
     (if num = 0 then Inr (Finite neg 0 (- 1074))
      else
        let u = leading_bit num den - 52;
            e = max (- 1074) u;
            (n, d) = units num den e;
            m = round_half_even (n, d);
            tiny = (u < - 1074 \<and> \<not> (u = - 1075 \<and> round_half_even (units num den u) = 2 ^ 53));
            (m, e) = (if m = 2 ^ 53 then (2 ^ 52, e + 1) else (m, e))
        in if 971 < e \<or> tiny \<and> n mod d \<noteq> 0 then Inl OutOfRange else Inr (Finite neg m e))"

definition stod :: "string \<Rightarrow> exn + double" where
  "stod s =
     (case scan_double s of
        None \<Rightarrow> Inl InvalidArgument
      | Some (neg, Fraction num den) \<Rightarrow> to_double neg num den
      | Some (neg, Inf_text) \<Rightarrow> Inr (Infinite neg)
      | Some (neg, Nan_text) \<Rightarrow> Inr (NaN neg))"

section \<open>Correct rounding\<close>

lemma powi_div: "(2 :: real) powi a / 2 powi b = 2 powi (a - b)"
  by (simp add: power_int_diff)

lemma units_real:
  assumes "units num den e = (n, d)" "0 < den"
  shows "0 < d" "real n / real d = real num / real den / 2 powi e"
  using assms by (auto simp: units_def power_int_def field_simps split: if_splits)

lemma floorlog_real:
  assumes "0 < n"
  shows "2 powi (int (floorlog 2 n) - 1) \<le> real n" "real n < 2 powi int (floorlog 2 n)"
proof -
  have pos: "0 < floorlog 2 n" using assms by (simp add: floorlog_def)
  have "2 ^ (floorlog 2 n - 1) \<le> n" "n < 2 ^ floorlog 2 n"
    using floorlog_bounds [of n 2] assms by auto
  then have "real (2 ^ (floorlog 2 n - 1)) \<le> real n" "real n < real (2 ^ floorlog 2 n)"
    by (simp_all del: of_nat_power)
  moreover have "int (floorlog 2 n) - 1 = int (floorlog 2 n - 1)" using pos by simp
  ultimately show "2 powi (int (floorlog 2 n) - 1) \<le> real n" "real n < 2 powi int (floorlog 2 n)"
    by (simp_all only: power_int_of_nat of_nat_power of_nat_numeral)
qed

lemma leading_bit_real:
  assumes "0 < num" "0 < den"
  shows "2 powi leading_bit num den \<le> real num / real den" "real num / real den < 2 powi (leading_bit num den + 1)"
proof -
  let ?v = "real num / real den" and ?k = "int (floorlog 2 num) - int (floorlog 2 den)"
  obtain n d where nd: "units num den ?k = (n, d)" by fastforce
  have d: "0 < d" "real n / real d = ?v / 2 powi ?k" using units_real [OF nd assms(2)] by auto
  have lo: "2 powi (?k - 1) \<le> ?v"
  proof -
    have "2 powi (int (floorlog 2 num) - 1) / 2 powi int (floorlog 2 den) \<le> ?v"
      using floorlog_real [OF assms(1)] floorlog_real [OF assms(2)] assms by (intro frac_le) auto
    moreover have "?k - 1 = (int (floorlog 2 num) - 1) - int (floorlog 2 den)" by simp
    ultimately show ?thesis by (simp only: powi_div)
  qed
  have hi: "?v < 2 powi (?k + 1)"
  proof -
    have "?v < 2 powi int (floorlog 2 num) / 2 powi (int (floorlog 2 den) - 1)"
      using floorlog_real [OF assms(1)] floorlog_real [OF assms(2)] assms by (intro frac_less) auto
    moreover have "?k + 1 = int (floorlog 2 num) - (int (floorlog 2 den) - 1)" by simp
    ultimately show ?thesis by (simp only: powi_div)
  qed
  have mid: "d \<le> n \<longleftrightarrow> 2 powi ?k \<le> ?v"
  proof -
    have "d \<le> n \<longleftrightarrow> 1 \<le> real n / real d" using d(1) by (simp add: le_divide_eq)
    also have "\<dots> \<longleftrightarrow> 2 powi ?k \<le> ?v" unfolding d(2) by (subst pos_le_divide_eq) simp_all
    finally show ?thesis .
  qed
  show "2 powi leading_bit num den \<le> ?v" "?v < 2 powi (leading_bit num den + 1)"
    using lo hi mid nd by (auto simp: leading_bit_def)
qed

lemma round_half_even_nearest:
  assumes "0 < d"
  shows "\<bar>real (round_half_even (n, d)) - real n / real d\<bar> \<le> 1 / 2"
    and "round_half_even (n, d) * d = n \<longleftrightarrow> n mod d = 0"
proof -
  let ?q = "n div d" and ?r = "n mod d"
  have "real n = real ?q * real d + real ?r"
    by (metis div_mult_mod_eq of_nat_add of_nat_mult)
  then have v: "real n / real d = real ?q + real ?r / real d"
    using assms by (simp add: field_simps)
  define t where "t = real ?r / real d"
  have t: "0 \<le> t" "t < 1" "2 * ?r < d \<longleftrightarrow> t < 1 / 2" "2 * ?r = d \<longleftrightarrow> t = 1 / 2"
    using assms by (auto simp: t_def field_simps)
  show "\<bar>real (round_half_even (n, d)) - real n / real d\<bar> \<le> 1 / 2"
    using t(1,2) unfolding v round_half_even_def Let_def prod.case t(3,4) t_def [symmetric]
    by (cases "t < 1 / 2 \<or> t = 1 / 2 \<and> even ?q") (simp_all only: if_True if_False, auto)
  have "(?q + 1) * d = ?q * d + d" by simp
  then have "(?q + 1) * d \<noteq> n" using mod_less_divisor [OF assms, of n] div_mult_mod_eq [of n d] by linarith
  moreover have "?q * d = n \<longleftrightarrow> ?r = 0" using div_mult_mod_eq [of n d] by linarith
  ultimately show "round_half_even (n, d) * d = n \<longleftrightarrow> ?r = 0"
    using assms by (auto simp: round_half_even_def Let_def)
qed

text \<open>No other multiple of a unit is nearer than one at distance at most half the unit.\<close>

lemma half_nearest:
  fixes v p :: real and i j :: nat
  assumes "\<bar>real i - v / p\<bar> \<le> 1 / 2" "0 < p"
  shows "\<bar>real i * p - v\<bar> \<le> \<bar>real j * p - v\<bar>"
proof (cases "i = j")
  case False
  then have "1 \<le> \<bar>int i - int j\<bar>" by auto
  then have "1 \<le> \<bar>real i - real j\<bar>" by (metis of_int_1_le_iff of_int_abs of_int_diff of_int_of_nat_eq)
  then have "\<bar>real i - v / p\<bar> \<le> \<bar>real j - v / p\<bar>" using assms by linarith
  then have "p * \<bar>real i - v / p\<bar> \<le> p * \<bar>real j - v / p\<bar>" using assms(2) by simp
  moreover have "p * \<bar>real k - v / p\<bar> = \<bar>real k * p - v\<bar>" for k
  proof -
    have "p * \<bar>real k - v / p\<bar> = \<bar>p * (real k - v / p)\<bar>" using assms(2) by (simp add: abs_mult)
    also have "p * (real k - v / p) = real k * p - v" using assms(2) by (simp add: field_simps)
    finally show ?thesis .
  qed
  ultimately show ?thesis by simp
qed simp

lemma powi_mono: "a \<le> b \<Longrightarrow> (2 :: real) powi a \<le> 2 powi b"
  by (simp add: power_int_increasing)

text \<open>Rounding in a unit that keeps 53 bits, or in the smallest unit, gives a nearest double.\<close>

lemma nearest_double:
  assumes m: "\<bar>real m - v / 2 powi e\<bar> \<le> 1 / 2" and e: "e = - 1074 \<or> 2 ^ 52 \<le> v / 2 powi e"
    and enc: "encodes m' e'"
  shows "\<bar>magnitude m e - v\<bar> \<le> \<bar>magnitude m' e' - v\<bar>"
proof (cases "e \<le> e'")
  case True
  have "(2 :: real) powi e' = 2 ^ nat (e' - e) * 2 powi e"
    using True by (simp add: power_int_add [symmetric] flip: power_int_of_nat)
  then have eq: "magnitude m' e' = magnitude (m' * 2 ^ nat (e' - e)) e" by simp
  show ?thesis unfolding eq by (rule half_nearest [OF m]) simp
next
  case False
  then have v: "magnitude (2 ^ 52) e \<le> v"
    using e enc by (auto simp: encodes_def field_simps)
  have "magnitude m' e' \<le> real (2 ^ 53) * 2 powi (e - 1)"
    using False enc by (intro mult_mono powi_mono) (auto simp: encodes_def)
  also have "\<dots> = magnitude (2 ^ 52) e" by (simp add: power_int_diff)
  finally have "\<bar>magnitude (2 ^ 52) e - v\<bar> \<le> \<bar>magnitude m' e' - v\<bar>" using v by simp
  then show ?thesis using half_nearest [OF m, of "2 ^ 52"] by simp
qed

text \<open>The significand before the carry into the next power of two.\<close>

lemma rounded_bounds:
  assumes "0 < num" "0 < den" and e: "e = max (- 1074) (leading_bit num den - 52)" and nd: "units num den e = (n, d)"
  shows "round_half_even (n, d) \<le> 2 ^ 53"
    and "e = - 1074 \<or> 2 ^ 52 \<le> real num / real den / 2 powi e"
    and "e = - 1074 \<or> 2 ^ 52 \<le> round_half_even (n, d)"
    and "\<bar>real (round_half_even (n, d)) - real num / real den / 2 powi e\<bar> \<le> 1 / 2"
proof -
  define v where "v = real num / real den"
  let ?m = "round_half_even (n, d)"
  note lead = leading_bit_real [OF assms(1,2), folded v_def] and d = units_real [OF nd assms(2), folded v_def]
  have near: "\<bar>real ?m - v / 2 powi e\<bar> \<le> 1 / 2"
    using round_half_even_nearest(1) [OF d(1), of n] by (simp only: d(2))
  have "2 powi (leading_bit num den + 1) \<le> (2 :: real) powi (e + 53)"
    using e by (intro powi_mono) auto
  then have "v < 2 powi (e + 53)" using lead by linarith
  then have "v / 2 powi e < 2 ^ 53"
    by (simp add: pos_divide_less_eq power_int_add)
  then have "real ?m < 2 ^ 53 + 1" using near by linarith
  then show "?m \<le> 2 ^ 53" by simp
  have lo: "e = - 1074 \<or> 2 ^ 52 \<le> v / 2 powi e"
  proof (cases "e = - 1074")
    case False
    then have "leading_bit num den = e + 52" using e by auto
    then have "2 powi (e + 52) \<le> v" using lead by simp
    then show ?thesis by (simp add: pos_le_divide_eq power_int_add)
  qed simp
  have "2 ^ 52 \<le> ?m" if "2 ^ 52 \<le> v / 2 powi e"
  proof -
    have "2 ^ 52 - 1 < real ?m" using near that by linarith
    then show ?thesis by simp
  qed
  then show "e = - 1074 \<or> 2 ^ 52 \<le> ?m" using lo by blast
  show "e = - 1074 \<or> 2 ^ 52 \<le> real num / real den / 2 powi e"
    and "\<bar>real ?m - real num / real den / 2 powi e\<bar> \<le> 1 / 2"
    using lo near by (simp_all only: v_def)
qed

lemma to_double_rounded:
  assumes "0 < num" and e: "e = max (- 1074) (leading_bit num den - 52)" and nd: "units num den e = (n, d)"
    and m: "m = round_half_even (n, d)" and m': "(m', e') = (if m = 2 ^ 53 then (2 ^ 52, e + 1) else (m, e))"
  shows "to_double neg num den =
    (if 971 < e' \<or> (\<exists>u < - 1074. u = leading_bit num den - 52
         \<and> \<not> (u = - 1075 \<and> round_half_even (units num den u) = 2 ^ 53)) \<and> n mod d \<noteq> 0
     then Inl OutOfRange else Inr (Finite neg m' e'))"
proof -
  have "num \<noteq> 0" using assms(1) by simp
  show ?thesis
    unfolding to_double_def Let_def e [symmetric] nd prod.case m [symmetric] m' [symmetric] if_not_P [OF \<open>num \<noteq> 0\<close>]
    by (rule arg_cong [where f = "\<lambda>b. if b then _ else _"]) blast
qed

lemma to_double_nearest:
  assumes "to_double neg num den = Inr x" "0 < den"
  shows "\<exists>m e. x = Finite neg m e \<and> encodes m e
    \<and> (\<forall>m' e'. encodes m' e' \<longrightarrow>
         \<bar>magnitude m e - real num / real den\<bar> \<le> \<bar>magnitude m' e' - real num / real den\<bar>)"
proof (cases "num = 0")
  case True
  then show ?thesis using assms by (auto simp: to_double_def encodes_def)
next
  case False
  then have num: "0 < num" by simp
  define e where "e = max (- 1074) (leading_bit num den - 52)"
  obtain n d where nd: "units num den e = (n, d)" by fastforce
  define m where "m = round_half_even (n, d)"
  obtain m' e' where m': "(m', e') = (if m = 2 ^ 53 then (2 ^ 52, e + 1) else (m, e))" by (metis surj_pair)
  note b = rounded_bounds [OF num assms(2) e_def nd, folded m_def]
  have x: "x = Finite neg m' e'" "e' \<le> 971"
    using assms(1) unfolding to_double_rounded [OF num e_def nd m_def m'] by (auto split: if_splits)
  have same: "magnitude m' e' = magnitude m e"
    using m' by (auto simp: power_int_add split: if_splits)
  have "encodes m' e'"
    using x(2) m' b(1,3) by (auto simp: encodes_def e_def split: if_splits)
  then show ?thesis
    using x(1) nearest_double [OF b(4,2)] unfolding same [symmetric] by blast
qed

text \<open>What is a double already is read exactly.\<close>

lemma powi_less: "(2 :: real) powi a < 2 powi b \<longleftrightarrow> a < b"
  using powi_mono [of b a] power_int_strict_increasing [of a b "2 :: real"] by (meson less_le_not_le not_le one_less_numeral_iff semiring_norm(76))

lemma encoded_unit:
  assumes "encodes m e" "2 powi l \<le> magnitude m e" "magnitude m e < 2 powi (l + 1)"
  shows "max (- 1074) (l - 52) = e" "2 ^ 52 \<le> m \<Longrightarrow> - 1074 \<le> l - 52"
proof -
  have "magnitude m e < 2 powi (53 + e)" using assms(1) by (simp add: power_int_add encodes_def)
  then have hi: "l < 53 + e" using assms(2) powi_less le_less_trans by blast
  have lo: "52 + e < l + 1" if "2 ^ 52 \<le> m"
  proof -
    have "2 powi (52 + e) \<le> magnitude m e" using that by (simp add: power_int_add)
    then show ?thesis using assms(3) powi_less le_less_trans by blast
  qed
  show "max (- 1074) (l - 52) = e" "2 ^ 52 \<le> m \<Longrightarrow> - 1074 \<le> l - 52"
    using hi lo assms(1) by (auto simp: encodes_def max_def)
qed

lemma to_double_exact:
  assumes enc: "encodes m e" and v: "real num / real den = magnitude m e" and den: "0 < den"
  shows "to_double neg num den = Inr (Finite neg m e)"
proof (cases "num = 0")
  case True
  then have "m = 0" using v by simp
  then show ?thesis using True enc by (simp add: to_double_def encodes_def)
next
  case False
  then have num: "0 < num" by simp
  note e = encoded_unit [OF enc leading_bit_real [OF num den, unfolded v]]
  obtain n d where nd: "units num den e = (n, d)" by fastforce
  have d: "0 < d" "real n / real d = real m"
    using units_real [OF nd den] by (simp_all add: v)
  then have "real n = real (m * d)" by (simp add: field_simps)
  then have n: "n = m * d" by (simp only: of_nat_eq_iff)
  have m: "m = round_half_even (n, d)" using d(1) by (simp add: n round_half_even_def)
  have m': "(m, e) = (if m = 2 ^ 53 then (2 ^ 52, e + 1) else (m, e))" using enc by (simp add: encodes_def)
  have "e \<le> 971" "n mod d = 0" using enc by (simp_all add: encodes_def n)
  then show ?thesis by (simp add: to_double_rounded [OF num e(1) [symmetric] nd m m'])
qed

text \<open>The only errors are an overflow, and a loss of bits below the normal range.\<close>

lemma to_double_error:
  assumes "to_double neg num den = Inl err" "0 < den"
  shows "err = OutOfRange \<and> 0 < num
    \<and> (2 ^ 1024 - 2 ^ 970 \<le> real num / real den \<or> real num / real den < 2 powi (- 1022))"
proof -
  have num: "0 < num" using assms(1) by (cases "num = 0") (auto simp: to_double_def)
  define v where "v = real num / real den"
  define l where "l = leading_bit num den"
  define e where "e = max (- 1074) (l - 52)"
  obtain n d where nd: "units num den e = (n, d)" by fastforce
  define m where "m = round_half_even (n, d)"
  obtain m' e' where m': "(m', e') = (if m = 2 ^ 53 then (2 ^ 52, e + 1) else (m, e))" by (metis surj_pair)
  have lead: "2 powi l \<le> v" "v < 2 powi (l + 1)"
    using leading_bit_real [OF num assms(2)] by (simp_all add: l_def v_def)
  have near: "\<bar>real m - v / 2 powi e\<bar> \<le> 1 / 2"
    using rounded_bounds(4) [OF num assms(2) e_def [unfolded l_def] nd] by (simp only: m_def v_def)
  have "err = OutOfRange" "971 < e' \<or> l - 52 < - 1074"
    using assms(1) unfolding to_double_rounded [OF num e_def [unfolded l_def] nd m_def m'] l_def
    by (auto split: if_splits)
  moreover have "2 ^ 1024 - 2 ^ 970 \<le> v" if big: "971 < e'"
  proof (cases "971 < e")
    case True
    then have "(2 :: real) powi 1024 \<le> 2 powi l" by (intro powi_mono) (simp add: e_def)
    then show ?thesis using lead(1) by simp
  next
    case False
    then have e: "e = 971" "m = 2 ^ 53" using big m' by (auto split: if_splits)
    then have "(2 ^ 53 - 1 / 2) * 2 powi 971 \<le> v" using near by (simp add: abs_le_iff field_simps)
    then show ?thesis by simp
  qed
  moreover have "v < 2 powi (- 1022)" if "l - 52 < - 1074"
  proof -
    have "(2 :: real) powi (l + 1) \<le> 2 powi (- 1022)" using that by (intro powi_mono) simp
    then show ?thesis using lead(2) by linarith
  qed
  ultimately show ?thesis using num unfolding v_def by blast
qed

section \<open>Texts\<close>

lemma scan_fraction_pos:
  assumes "scan_double s = Some (neg, Fraction num den)"
  shows "0 < den"
  using assms
  by (auto simp: scan_double_def scan_hex_def scan_decimal_def fraction_def Let_def split: prod.splits if_splits)

lemma stod_fraction:
  assumes "scan_double s = Some (neg, Fraction num den)"
  shows "stod s = to_double neg num den"
  using assms by (simp add: stod_def)

lemma to_lower_digit [simp]: "is_digit c \<Longrightarrow> to_lower c = c"
  by (simp add: to_lower_def is_digit_def)

lemma scan_decimal_dec_of_nat: "scan_decimal (dec_of_nat n) = Some (Fraction n 1)"
proof -
  have "dropWhile is_digit (dec_of_nat n) = []" using dec_of_nat_digits [of n] by simp
  then show ?thesis by (simp add: scan_decimal_def scan_digits_def scan_exponent_def fraction_def Let_def
        del: dropWhile_eq_Nil_conv)
qed

lemma digits_no_word:
  assumes "\<forall>c \<in> set t. is_digit c" "t \<noteq> []"
  shows "map to_lower (take 3 t) \<noteq> ''inf''" "map to_lower (take 3 t) \<noteq> ''nan''"
    "take 2 (map to_lower (take 3 t)) \<noteq> ''0x''"
  using assms by (cases t; cases "tl t"; auto simp: is_digit_def to_lower_def Let_def)+

text \<open>A printed integer is read as that integer.\<close>

lemma scan_double_to_string: "scan_double (to_string i) = Some (i < 0, Fraction (nat \<bar>i\<bar>) 1)"
proof -
  let ?t = "dec_of_nat (nat \<bar>i\<bar>)"
  obtain c t where ct: "?t = c # t" by (cases ?t) auto
  then have "is_digit c" by (rule dec_of_nat_head)
  then have "scan_sign (dropWhile is_space (to_string i)) = (i < 0, ?t)"
    using ct by (cases "i < 0") (auto simp: to_string_def scan_sign_def is_space_def [of "CHR ''-''"])
  then show ?thesis
    using digits_no_word [OF dec_of_nat_digits, of "nat \<bar>i\<bar>"]
    by (simp add: scan_double_def scan_decimal_dec_of_nat)
qed

text \<open>The integers up to \<open>2 ^ 53\<close> are doubles, so printing and reading one is exact.\<close>

lemma nat_encoded:
  assumes "n \<le> 2 ^ 53"
  shows "\<exists>m e. encodes m e \<and> magnitude m e = real n"
proof (cases "n = 0 \<or> n = 2 ^ 53")
  case True
  then show ?thesis
  proof
    assume "n = 0"
    then show ?thesis by (intro exI [of _ 0] exI [of _ "- 1074"]) (simp add: encodes_def)
  next
    assume n: "n = 2 ^ 53"
    have "encodes (2 ^ 52) 1" by (simp add: encodes_def)
    moreover have "magnitude (2 ^ 52) 1 = real n" unfolding n by simp
    ultimately show ?thesis by blast
  qed
next
  case False
  then have "0 < n" "n \<noteq> 2 ^ 53" by simp_all
  then have n: "0 < n" "n < 2 ^ 53" using le_neq_implies_less [OF assms] by simp_all
  then have b: "2 ^ (floorlog 2 n - 1) \<le> n" "n < 2 ^ floorlog 2 n" "0 < floorlog 2 n"
    using floorlog_bounds [of n 2] by (auto simp: floorlog_def)
  have le: "floorlog 2 n \<le> 53" using floorlog_leI [of n 2 53] n by simp
  define k where "k = 53 - floorlog 2 n"
  have k: "floorlog 2 n + k = 53" "floorlog 2 n - 1 + k = 52" using le b(3) by (simp_all add: k_def)
  have "2 ^ (floorlog 2 n - 1) * 2 ^ k \<le> n * 2 ^ k" "n * 2 ^ k < 2 ^ floorlog 2 n * 2 ^ k"
    using b by simp_all
  then have "2 ^ 52 \<le> n * 2 ^ k" "n * 2 ^ k < 2 ^ 53" by (simp_all only: power_add [symmetric] k)
  moreover have "k \<le> 52" using k(1) b(3) by simp
  ultimately have "encodes (n * 2 ^ k) (- int k)" by (simp add: encodes_def)
  moreover have "magnitude (n * 2 ^ k) (- int k) = real n" by (simp add: power_int_minus)
  ultimately show ?thesis by blast
qed

lemma stod_to_string:
  assumes "\<bar>i\<bar> \<le> 2 ^ 53"
  shows "\<exists>m e. stod (to_string i) = Inr (Finite (i < 0) m e) \<and> magnitude m e = real_of_int \<bar>i\<bar>"
proof -
  have "nat \<bar>i\<bar> \<le> 2 ^ 53" using assms by (simp add: nat_le_iff)
  from nat_encoded [OF this] obtain m e where me: "encodes m e" "magnitude m e = real (nat \<bar>i\<bar>)" by blast
  then have "to_double (i < 0) (nat \<bar>i\<bar>) 1 = Inr (Finite (i < 0) m e)"
    by (intro to_double_exact) simp_all
  then show ?thesis using me(2) by (simp add: stod_fraction [OF scan_double_to_string])
qed

end
