(* ===== verification/Config_Loader.thy ===== *)
theory Config_Loader
  imports Std_Double "HOL-Library.List_Lexorder" "HOL-Library.Char_ord"
begin

text \<open>
  \<open>ConfigLoader\<close> (\<open>include/ConfigLoader.h\<close>, \<open>src/util/ConfigLoader.cpp\<close>): the parsing of configuration
  files, the overriding by environment variables, validation, and the typed readers. The file system
  is an argument, giving the contents of the files that can be opened, as is the environment. The
  configuration, a \<open>std::map\<close>, is a map; the validators, which are
  tried in the order of their keys, are an association list in that order.
  A validator may throw. A \<open>ConfigException\<close> is a \<open>RuntimeError\<close>.
\<close>

section \<open>Text\<close>

abbreviation newline :: char where "newline \<equiv> CHR 0x0A"

definition is_blank :: "char \<Rightarrow> bool" where
  "is_blank c \<longleftrightarrow> c = CHR '' '' \<or> c = CHR 0x09 \<or> c = CHR 0x0A \<or> c = CHR 0x0D"

definition trim :: "string \<Rightarrow> string" where
  "trim str = rev (dropWhile is_blank (rev (dropWhile is_blank str)))"

definition unquote :: "string \<Rightarrow> string" where
  "unquote str =
     (if 2 \<le> length str
         \<and> (hd str = CHR 0x22 \<and> last str = CHR 0x22 \<or> hd str = CHR 0x27 \<and> last str = CHR 0x27)
      then butlast (tl str) else str)"

definition parseBool :: "string \<Rightarrow> exn + bool" where
  "parseBool str =
     (let lower = map to_lower str in
      if lower = ''true'' \<or> lower = ''1'' \<or> lower = ''yes'' \<or> lower = ''on'' then Inr True
      else if lower = ''false'' \<or> lower = ''0'' \<or> lower = ''no'' \<or> lower = ''off'' then Inr False
      else Inl (RuntimeError (''Invalid boolean value: '' @ str)))"

text \<open>The lines \<open>std::getline\<close> reads.\<close>

function getlines :: "string \<Rightarrow> string list" where
  "getlines s = (if s = [] then [] else before newline s # getlines (drop 1 (since newline s)))"
  by auto
termination
proof (relation "measure length")
  fix s :: string assume "s \<noteq> []"
  then show "(drop 1 (since newline s), s) \<in> measure length"
    using length_since [of newline s] by (cases s) auto
qed simp

declare getlines.simps [simp del]

section \<open>State\<close>

record LoadOptions =
  allow_missing_ini :: bool
  allow_missing_env :: bool
  override_from_environment :: bool
  env_keys_to_load :: "string list"

definition default_load_options :: LoadOptions where
  "default_load_options =
     \<lparr>allow_missing_ini = False, allow_missing_env = True, override_from_environment = True,
      env_keys_to_load = []\<rparr>"

type_synonym config = "string \<rightharpoonup> string"

record ConfigLoader =
  configMap :: config
  last_ini_file :: string
  last_env_file :: string
  last_options :: LoadOptions
  validators :: "(string \<times> (string \<Rightarrow> exn + bool) \<times> string) list"

definition new_ConfigLoader :: ConfigLoader where
  "new_ConfigLoader =
     \<lparr>configMap = Map.empty, last_ini_file = '''', last_env_file = '''',
      last_options = default_load_options, validators = []\<rparr>"

definition getDefaultEnvKeys :: "string list" where
  "getDefaultEnvKeys =
     [''DB_HOST'', ''DB_PORT'', ''DB_USER'', ''DB_PASS'', ''DB_NAME'', ''REDIS_HOST'', ''REDIS_PORT'',
      ''CACHE_TTL_SECONDS'', ''SERVER_PORT'', ''SERVER_ADDRESS'', ''SERVER_MAX_THREADS'', ''STREAM_SECRET_KEY'']"

section \<open>Loading\<close>

definition parse_line :: "config \<Rightarrow> string \<Rightarrow> config" where
  "parse_line m line0 =
     (let line = trim line0 in
      if line = '''' \<or> hd line = CHR ''#'' \<or> hd line = CHR '';'' then m
      else (case since (CHR ''='') line of
              [] \<Rightarrow> m
            | _ # rest \<Rightarrow>
                let key = trim (before (CHR ''='') line); val = unquote rest
                in if key \<noteq> '''' then m(key \<mapsto> val) else m))"

definition parseFileToMap :: "(string \<Rightarrow> string option) \<Rightarrow> string \<Rightarrow> config \<Rightarrow> bool \<Rightarrow> exn + config" where
  "parseFileToMap fs filename m optional =
     (case fs filename of
        None \<Rightarrow> if optional then Inr m else Inl (RuntimeError (''Cannot open config file: '' @ filename))
      | Some contents \<Rightarrow> Inr (foldl parse_line m (getlines contents)))"

fun loadEnvToMap :: "(string \<Rightarrow> string option) \<Rightarrow> string list \<Rightarrow> config \<Rightarrow> config" where
  "loadEnvToMap env [] m = m"
| "loadEnvToMap env (key # keys) m =
     loadEnvToMap env keys (case env key of None \<Rightarrow> m | Some v \<Rightarrow> m(key \<mapsto> v))"

fun validateMap :: "(string \<times> (string \<Rightarrow> exn + bool) \<times> string) list \<Rightarrow> config \<Rightarrow> exn + bool" where
  "validateMap [] m = Inr True"
| "validateMap ((key, f, _) # vs) m =
     (case m key of
        None \<Rightarrow> Inr False
      | Some v \<Rightarrow> (case f v of
           Inl e \<Rightarrow> Inl e
         | Inr False \<Rightarrow> Inr False
         | Inr True \<Rightarrow> validateMap vs m))"

text \<open>The configuration the files and the environment give, or the exception that stops the parsing.\<close>

definition next_config ::
  "(string \<Rightarrow> string option) \<Rightarrow> (string \<Rightarrow> string option) \<Rightarrow> string \<Rightarrow> string \<Rightarrow> LoadOptions \<Rightarrow> exn + config" where
  "next_config fs env ini envf opts =
     (case parseFileToMap fs ini Map.empty (allow_missing_ini opts) of
        Inl e \<Rightarrow> Inl e
      | Inr m \<Rightarrow>
          (case (if envf \<noteq> '''' then parseFileToMap fs envf m (allow_missing_env opts) else Inr m) of
             Inl e \<Rightarrow> Inl e
           | Inr m \<Rightarrow>
               Inr (if override_from_environment opts
                    then loadEnvToMap env
                      (if env_keys_to_load opts = [] then getDefaultEnvKeys else env_keys_to_load opts) m
                    else m)))"

definition load ::
  "(string \<Rightarrow> string option) \<Rightarrow> (string \<Rightarrow> string option) \<Rightarrow> string \<Rightarrow> string \<Rightarrow> LoadOptions \<Rightarrow> ConfigLoader \<Rightarrow>
   bool \<times> ConfigLoader" where
  "load fs env ini envf opts cl =
     (case next_config fs env ini envf opts of
        Inl _ \<Rightarrow> (False, cl)
      | Inr m \<Rightarrow>
          (case validateMap (validators cl) m of
             Inr True \<Rightarrow>
               (True, cl\<lparr>configMap := m, last_ini_file := ini, last_env_file := envf, last_options := opts\<rparr>)
           | _ \<Rightarrow> (False, cl)))"

definition reload :: "(string \<Rightarrow> string option) \<Rightarrow> (string \<Rightarrow> string option) \<Rightarrow> ConfigLoader \<Rightarrow> ConfigLoader" where
  "reload fs env cl = snd (load fs env (last_ini_file cl) (last_env_file cl) (last_options cl) cl)"

section \<open>Readers and writers\<close>

definition getString :: "string \<Rightarrow> ConfigLoader \<Rightarrow> exn + string" where
  "getString key cl =
     (case configMap cl key of
        None \<Rightarrow> Inl (RuntimeError (''Missing required key: '' @ key)) | Some v \<Rightarrow> Inr v)"

definition getString_or :: "string \<Rightarrow> string \<Rightarrow> ConfigLoader \<Rightarrow> string" where
  "getString_or key dflt cl = (case configMap cl key of Some v \<Rightarrow> v | None \<Rightarrow> dflt)"

definition getInt :: "string \<Rightarrow> ConfigLoader \<Rightarrow> exn + int" where
  "getInt key cl = (case getString key cl of Inl e \<Rightarrow> Inl e | Inr v \<Rightarrow> stoi v)"

definition getInt_or :: "string \<Rightarrow> int \<Rightarrow> ConfigLoader \<Rightarrow> int" where
  "getInt_or key dflt cl =
     (case configMap cl key of
        None \<Rightarrow> dflt
      | Some v \<Rightarrow> (case stoi v of Inr i \<Rightarrow> i | Inl _ \<Rightarrow> dflt))"

definition getBool :: "string \<Rightarrow> ConfigLoader \<Rightarrow> exn + bool" where
  "getBool key cl = (case getString key cl of Inl e \<Rightarrow> Inl e | Inr v \<Rightarrow> parseBool v)"

definition getBool_or :: "string \<Rightarrow> bool \<Rightarrow> ConfigLoader \<Rightarrow> bool" where
  "getBool_or key dflt cl =
     (case configMap cl key of
        None \<Rightarrow> dflt
      | Some v \<Rightarrow> (case parseBool v of Inr b \<Rightarrow> b | Inl _ \<Rightarrow> dflt))"

definition getDouble :: "string \<Rightarrow> ConfigLoader \<Rightarrow> exn + double" where
  "getDouble key cl = (case getString key cl of Inl e \<Rightarrow> Inl e | Inr v \<Rightarrow> stod v)"

definition getDouble_or :: "string \<Rightarrow> double \<Rightarrow> ConfigLoader \<Rightarrow> double" where
  "getDouble_or key dflt cl =
     (case configMap cl key of
        None \<Rightarrow> dflt
      | Some v \<Rightarrow> (case stod v of Inr x \<Rightarrow> x | Inl _ \<Rightarrow> dflt))"

definition has :: "string \<Rightarrow> ConfigLoader \<Rightarrow> bool" where
  "has key cl \<longleftrightarrow> configMap cl key \<noteq> None"

definition set_value :: "string \<Rightarrow> string \<Rightarrow> ConfigLoader \<Rightarrow> ConfigLoader" where
  "set_value key v cl = cl\<lparr>configMap := (configMap cl)(key \<mapsto> v)\<rparr>"

definition addValidator :: "string \<Rightarrow> (string \<Rightarrow> exn + bool) \<Rightarrow> string \<Rightarrow> ConfigLoader \<Rightarrow> ConfigLoader" where
  "addValidator key f msg cl =
     cl\<lparr>validators := insort_key fst (key, f, msg) (filter (\<lambda>(k, _). k \<noteq> key) (validators cl))\<rparr>"

section \<open>All or nothing\<close>

lemma validateMap_True:
  "validateMap vs m = Inr True \<longleftrightarrow> (\<forall>(k, f, msg) \<in> set vs. \<exists>v. m k = Some v \<and> f v = Inr True)"
  by (induction vs m rule: validateMap.induct) (auto split: option.splits sum.splits bool.splits)

lemma load_cases:
  "load fs env ini envf opts cl =
     (case next_config fs env ini envf opts of
        Inr m \<Rightarrow> if validateMap (validators cl) m = Inr True
                 then (True, cl\<lparr>configMap := m, last_ini_file := ini, last_env_file := envf, last_options := opts\<rparr>)
                 else (False, cl)
      | Inl _ \<Rightarrow> (False, cl))"
  by (auto simp: load_def split: sum.splits bool.splits)

text \<open>
  C36. Loading is all or nothing: a load that fails, because a file is missing or a validator refuses
  or throws, leaves the loader as it was; a load that succeeds installs exactly the configuration that
  the files and the environment give, and every key with a validator is present with a value its
  validator accepts.
\<close>

theorem load_all_or_nothing:
  assumes "load fs env ini envf opts cl = (b, cl')"
  shows "if b then next_config fs env ini envf opts = Inr (configMap cl')
      \<and> validators cl' = validators cl
      \<and> list_all (\<lambda>(k, f, msg). \<exists>v. configMap cl' k = Some v \<and> f v = Inr True) (validators cl')
    else cl' = cl"
  using assms by (auto simp: load_cases validateMap_True list_all_iff split: sum.splits if_splits)

definition port_validator :: "string \<Rightarrow> exn + bool" where
  "port_validator s = map_sum id (\<lambda>i. 0 < i \<and> i \<le> 65535) (stoi s)"

definition demo_loader :: ConfigLoader where
  "demo_loader = addValidator ''SERVER_PORT'' port_validator ''port'' new_ConfigLoader"

definition demo_fs :: "string \<Rightarrow> string option" where
  "demo_fs = [''app.ini'' \<mapsto> ''SERVER_PORT=9000'']"

lemma demo_load:
  "load demo_fs (\<lambda>_. None) ''app.ini'' '''' default_load_options demo_loader =
     (True, demo_loader\<lparr>configMap := [''SERVER_PORT'' \<mapsto> ''9000''], last_ini_file := ''app.ini''\<rparr>)"
proof -
  have lines: "getlines ''SERVER_PORT=9000'' = [''SERVER_PORT=9000'']"
    by (simp add: getlines.simps before_def since_def)
  have line: "parse_line Map.empty ''SERVER_PORT=9000'' = [''SERVER_PORT'' \<mapsto> ''9000'']"
    by (simp add: parse_line_def trim_def is_blank_def before_def since_def unquote_def)
  have ini: "parseFileToMap demo_fs ''app.ini'' Map.empty False = Inr [''SERVER_PORT'' \<mapsto> ''9000'']"
    by (simp add: parseFileToMap_def demo_fs_def lines line)
  have env: "loadEnvToMap (\<lambda>_. None) ks m = m" for ks m
    by (induction ks) auto
  have port: "port_validator ''9000'' = Inr True"
    by (simp add: port_validator_def sto_signed_def scan_int_def is_space_def is_digit_def dec_val_def
        digit_val_def)
  have opts: "allow_missing_ini default_load_options = False"
    "override_from_environment default_load_options = True"
    by (simp_all add: default_load_options_def)
  have next': "next_config demo_fs (\<lambda>_. None) ''app.ini'' '''' default_load_options
      = Inr [''SERVER_PORT'' \<mapsto> ''9000'']"
    by (simp add: next_config_def opts ini env)
  show ?thesis
    by (simp add: load_cases next' demo_loader_def addValidator_def new_ConfigLoader_def port)
qed

theorem load_all_or_nothing_witness:
  "next_config demo_fs (\<lambda>_. None) ''app.ini'' '''' default_load_options
     = Inr (configMap (demo_loader\<lparr>configMap := [''SERVER_PORT'' \<mapsto> ''9000''], last_ini_file := ''app.ini''\<rparr>))"
  using load_all_or_nothing [OF demo_load] by simp

lemma loadEnv_other: "k \<notin> set ks \<Longrightarrow> loadEnvToMap env ks m k = m k"
  by (induction env ks m rule: loadEnvToMap.induct) (auto split: option.splits)

lemma loadEnv_wins: "k \<in> set ks \<Longrightarrow> env k = Some v \<Longrightarrow> loadEnvToMap env ks m k = Some v"
proof (induction env ks m rule: loadEnvToMap.induct)
  case (2 env key keys m)
  then show ?case by (cases "k \<in> set keys") (auto simp: loadEnv_other split: option.splits)
qed simp

text \<open>
  A variable of the environment wins over both files: after a successful load with overriding on,
  every listed key that the environment defines has the value of the environment.
\<close>

theorem environment_wins:
  assumes "load fs env ini envf opts cl = (True, cl')" "override_from_environment opts"
    and "k \<in> set (if env_keys_to_load opts = [] then getDefaultEnvKeys else env_keys_to_load opts)"
    and "env k = Some v"
  shows "configMap cl' k = Some v"
  using assms
  by (auto simp: load_cases next_config_def loadEnv_wins split: sum.splits if_splits)

lemma demo_override:
  "load demo_fs [''SERVER_PORT'' \<mapsto> ''8080''] ''app.ini'' '''' default_load_options new_ConfigLoader =
     (True, new_ConfigLoader\<lparr>configMap := loadEnvToMap [''SERVER_PORT'' \<mapsto> ''8080''] getDefaultEnvKeys
        [''SERVER_PORT'' \<mapsto> ''9000''], last_ini_file := ''app.ini''\<rparr>)"
proof -
  have "getlines ''SERVER_PORT=9000'' = [''SERVER_PORT=9000'']"
    by (simp add: getlines.simps before_def since_def)
  moreover have "parse_line Map.empty ''SERVER_PORT=9000'' = [''SERVER_PORT'' \<mapsto> ''9000'']"
    by (simp add: parse_line_def trim_def is_blank_def before_def since_def unquote_def)
  ultimately show ?thesis
    by (simp add: load_cases next_config_def parseFileToMap_def demo_fs_def default_load_options_def
        new_ConfigLoader_def)
qed

theorem environment_wins_witness:
  "configMap (new_ConfigLoader\<lparr>configMap := loadEnvToMap [''SERVER_PORT'' \<mapsto> ''8080''] getDefaultEnvKeys
     [''SERVER_PORT'' \<mapsto> ''9000''], last_ini_file := ''app.ini''\<rparr>) ''SERVER_PORT'' = Some ''8080''"
  by (rule environment_wins [OF demo_override]) (simp_all add: default_load_options_def getDefaultEnvKeys_def)

section \<open>A written configuration reads back\<close>

definition print_config :: "(string \<times> string) list \<Rightarrow> string" where
  "print_config ps = concat (map (\<lambda>(k, v). k @ ''='' @ v @ [newline]) ps)"

text \<open>The pairs a file can carry: the parser trims lines and keys, and strips quotes from values.\<close>

definition writable :: "string \<times> string \<Rightarrow> bool" where
  "writable p \<longleftrightarrow> (case p of (k, v) \<Rightarrow>
     k \<noteq> '''' \<and> CHR ''='' \<notin> set k \<and> hd k \<noteq> CHR ''#'' \<and> hd k \<noteq> CHR '';''
     \<and> \<not> is_blank (hd k) \<and> \<not> is_blank (last k) \<and> newline \<notin> set k \<and> newline \<notin> set v
     \<and> (v = '''' \<or> \<not> is_blank (last v)) \<and> unquote v = v)"

lemma dropWhile_hd: "s \<noteq> [] \<Longrightarrow> \<not> P (hd s) \<Longrightarrow> dropWhile P s = s"
  by (cases s) auto

lemma trim_id: "s \<noteq> [] \<Longrightarrow> \<not> is_blank (hd s) \<Longrightarrow> \<not> is_blank (last s) \<Longrightarrow> trim s = s"
  by (simp add: trim_def dropWhile_hd hd_rev)

lemma parse_written:
  assumes "writable (k, v)"
  shows "parse_line m (k @ CHR ''='' # v) = m(k \<mapsto> v)"
proof -
  have "trim (k @ CHR ''='' # v) = k @ CHR ''='' # v"
    using assms by (intro trim_id) (auto simp: writable_def is_blank_def)
  moreover have "trim k = k" using assms by (simp add: writable_def trim_id)
  moreover note before_append [of "CHR ''=''" k v]
  ultimately show ?thesis
    using assms by (simp add: parse_line_def writable_def)
qed

lemma getlines_cons: "newline \<notin> set s \<Longrightarrow> getlines (s @ newline # t) = s # getlines t"
  using before_append [of newline s t] by (simp add: getlines.simps [of "s @ newline # t"])

lemma foldl_written:
  assumes "list_all writable ps"
  shows "foldl parse_line m (getlines (print_config ps)) = put_pairs ps m"
  using assms
proof (induction ps arbitrary: m)
  case Nil
  show ?case by (simp add: print_config_def getlines.simps)
next
  case (Cons p ps)
  obtain k v where p: "p = (k, v)" by fastforce
  have "newline \<notin> set (k @ CHR ''='' # v)" using Cons.prems p by (auto simp: writable_def)
  from getlines_cons [OF this, of "print_config ps"]
  have "getlines (print_config (p # ps)) = (k @ CHR ''='' # v) # getlines (print_config ps)"
    by (simp add: print_config_def p)
  then show ?case using Cons p by (simp add: parse_written fun_upd_def)
qed

text \<open>
  C37. A configuration written as lines of key and value reads back unchanged, later lines overriding
  earlier ones, when no key is empty, starts a comment or holds an equals sign, and neither keys nor
  values carry what the parser strips: blanks around keys, blanks at the end of values, and quotes
  around values.
\<close>

theorem config_file_roundtrip:
  assumes "fs filename = Some (print_config ps)" "list_all writable ps"
  shows "parseFileToMap fs filename Map.empty optional = Inr (map_of (rev ps))"
  using assms foldl_written [OF assms(2), of Map.empty] by (simp add: parseFileToMap_def put_pairs_map)

theorem config_file_roundtrip_witness:
  "parseFileToMap [''a.ini'' \<mapsto> print_config [(''DB_HOST'', ''127.0.0.1''), (''DB_PORT'', ''3306'')]] ''a.ini''
     Map.empty False = Inr (map_of (rev [(''DB_HOST'', ''127.0.0.1''), (''DB_PORT'', ''3306'')]))"
  by (rule config_file_roundtrip) (simp_all add: writable_def is_blank_def unquote_def)

section \<open>Floating-point settings\<close>

text \<open>
  C38. A setting whose text starts with a number is read correctly: the finite double returned has the
  sign of the text and is as near to the number as any double is. It fails only by
  \<open>std::out_of_range\<close>, for a number that is no double and either rounds past the largest one or is
  below the smallest normal one; the reader with a default returns the default exactly then.
\<close>

theorem getDouble_correctly_rounded:
  assumes "configMap cl key = Some s" "scan_double s = Some (neg, Fraction num den)"
  shows "case getDouble key cl of
      Inr x \<Rightarrow> getDouble_or key dflt cl = x
        \<and> (\<exists>m e. x = Finite neg m e \<and> encodes m e
             \<and> (\<forall>m' e'. encodes m' e' \<longrightarrow>
                  \<bar>magnitude m e - real num / real den\<bar> \<le> \<bar>magnitude m' e' - real num / real den\<bar>))
    | Inl err \<Rightarrow> getDouble_or key dflt cl = dflt \<and> err = OutOfRange
        \<and> (\<forall>m e. encodes m e \<longrightarrow> magnitude m e \<noteq> real num / real den)
        \<and> (2 ^ 1024 - 2 ^ 970 \<le> real num / real den
           \<or> 0 < real num / real den \<and> real num / real den < 2 powi (- 1022))"
proof -
  have den: "0 < den" by (rule scan_fraction_pos [OF assms(2)])
  have eqs: "getDouble key cl = to_double neg num den"
    "getDouble_or key dflt cl = (case to_double neg num den of Inr x \<Rightarrow> x | Inl _ \<Rightarrow> dflt)"
    using assms by (simp_all add: getDouble_def getString_def getDouble_or_def stod_fraction)
  show ?thesis
  proof (cases "to_double neg num den")
    case (Inl err)
    then have "magnitude m e \<noteq> real num / real den" if "encodes m e" for m e
      using to_double_exact [OF that, of num den neg] den by auto
    then show ?thesis using to_double_error [OF Inl den] den Inl by (simp add: eqs)
  next
    case (Inr x)
    then show ?thesis using to_double_nearest [OF Inr den] by (simp add: eqs)
  qed
qed

text \<open>One tenth is not a double: the setting is the nearest one, just above it.\<close>

lemma demo_tenth: "scan_double ''0.1'' = Some (False, Fraction 1 10)"
  by code_simp

lemma demo_tenth_rounded: "to_double False 1 10 = Inr (Finite False 7205759403792794 (- 56))"
proof -
  have "floorlog 2 1 = 1" "floorlog 2 10 = 4" by (simp_all add: compute_floorlog)
  then have "leading_bit 1 10 = - 4" by (simp add: leading_bit_def units_def)
  then show ?thesis by (simp add: to_double_def units_def round_half_even_def)
qed

theorem getDouble_correctly_rounded_witness:
  "getDouble ''RATE'' (set_value ''RATE'' ''0.1'' new_ConfigLoader) = Inr (Finite False 7205759403792794 (- 56))
   \<and> \<bar>magnitude 7205759403792794 (- 56) - 1 / 10\<bar> \<le> \<bar>magnitude 7205759403792793 (- 56) - 1 / 10\<bar>
   \<and> \<bar>magnitude 7205759403792794 (- 56) - 1 / 10\<bar> \<le> \<bar>magnitude 7205759403792795 (- 56) - 1 / 10\<bar>"
proof -
  let ?cl = "set_value ''RATE'' ''0.1'' new_ConfigLoader"
  have s: "configMap ?cl ''RATE'' = Some ''0.1''" by (simp add: set_value_def)
  have x: "getDouble ''RATE'' ?cl = Inr (Finite False 7205759403792794 (- 56))"
    by (simp add: getDouble_def getString_def s stod_fraction [OF demo_tenth] demo_tenth_rounded [unfolded One_nat_def])
  then have "\<forall>m e. encodes m e \<longrightarrow> \<bar>magnitude 7205759403792794 (- 56) - 1 / 10\<bar> \<le> \<bar>magnitude m e - 1 / 10\<bar>"
    using getDouble_correctly_rounded [OF s demo_tenth, where dflt = "NaN False"] by simp
  then have near: "encodes m e \<Longrightarrow> \<bar>magnitude 7205759403792794 (- 56) - 1 / 10\<bar> \<le> \<bar>magnitude m e - 1 / 10\<bar>" for m e
    by blast
  show ?thesis by (intro conjI x near) (simp_all add: encodes_def)
qed

lemma getDouble_integer:
  assumes "\<bar>i\<bar> \<le> 2 ^ 53"
  shows "\<exists>m e. getDouble key (set_value key (to_string i) cl) = Inr (Finite (i < 0) m e)
    \<and> magnitude m e = real_of_int \<bar>i\<bar>"
  using stod_to_string [OF assms] by (simp add: getDouble_def getString_def set_value_def)

end
