(* ===== verification/Logger.thy ===== *)
theory Logger
  imports Sg_Prelude
begin

text \<open>
  \<open>Logger\<close> (\<open>include/Logger.h\<close>, \<open>src/util/Logger.cpp\<close>): levels, the format of an entry, the filter, the
  two sinks and the configuration. The enumeration has \<open>int\<close> as its underlying type and is made from a
  configured number by a cast, so a level is an integer. The sinks are a record of what the console has
  got and of the contents of files. The local time as text (\<open>stamp\<close>) and the clock, in milliseconds,
  are arguments; \<open>openable\<close> says which files can be opened for appending.
\<close>

section \<open>Levels and entries\<close>

type_synonym LogLevel = int

definition DEBUG :: LogLevel where "DEBUG = 0"
definition INFO :: LogLevel where "INFO = 1"
definition WARNING :: LogLevel where "WARNING = 2"
definition ERROR :: LogLevel where "ERROR = 3"
definition FATAL :: LogLevel where "FATAL = 4"

lemmas level_defs = DEBUG_def INFO_def WARNING_def ERROR_def FATAL_def

definition level_to_string :: "LogLevel \<Rightarrow> string" where
  "level_to_string level =
     (if level = DEBUG then ''DEBUG'' else if level = INFO then ''INFO '' else if level = WARNING then ''WARN ''
      else if level = ERROR then ''ERROR'' else if level = FATAL then ''FATAL'' else ''UNKNOWN'')"

definition level_to_color_code :: "LogLevel \<Rightarrow> string" where
  "level_to_color_code level = CHR 0x1B #
     (if level = DEBUG then ''[36m'' else if level = INFO then ''[32m'' else if level = WARNING then ''[33m''
      else if level = ERROR then ''[31m'' else if level = FATAL then ''[35m'' else ''[0m'')"

definition reset_code :: string where "reset_code = CHR 0x1B # ''[0m''"

text \<open>\<open>std::setfill('0') << std::setw(3)\<close>.\<close>

definition pad3 :: "string \<Rightarrow> string" where
  "pad3 s = replicate (3 - length s) (CHR ''0'') @ s"

definition get_timestamp :: "(nat \<Rightarrow> string) \<Rightarrow> nat \<Rightarrow> bool \<Rightarrow> string" where
  "get_timestamp stamp now_ms include_ms =
     stamp (now_ms div 1000) @ (if include_ms then ''.'' @ pad3 (dec_of_nat (now_ms mod 1000)) else '''')"

text \<open>The part of a path after its last slash (\<open>strrchr\<close>).\<close>

definition base_name :: "string \<Rightarrow> string" where
  "base_name path = rev (takeWhile (\<lambda>c. c \<noteq> CHR ''/'') (rev path))"

section \<open>State\<close>

record LogConfig =
  min_level :: LogLevel
  log_to_console :: bool
  log_to_file :: bool
  log_file_path :: string
  include_milliseconds :: bool

definition default_LogConfig :: LogConfig where
  "default_LogConfig =
     \<lparr>min_level = INFO, log_to_console = True, log_to_file = False, log_file_path = '''',
      include_milliseconds = True\<rparr>"

datatype file_stream = NoStream | OpenStream string | ClosedStream

record Logger =
  lg_config :: LogConfig
  lg_stream :: file_stream
  lg_min_level :: LogLevel

record Sinks =
  console :: string
  file_text :: "string \<Rightarrow> string"

definition new_Logger :: Logger where
  "new_Logger = \<lparr>lg_config = default_LogConfig, lg_stream = NoStream, lg_min_level = INFO\<rparr>"

definition get_min_level :: "Logger \<Rightarrow> LogLevel" where
  "get_min_level lg = lg_min_level lg"

text \<open>
  A call of the logging macros: its level and text, the source position for the macros that pass one,
  and the clock when it is made.
\<close>

record LogCall =
  lc_level :: LogLevel
  lc_message :: string
  lc_place :: "(string \<times> int) option"
  lc_now :: nat

definition log_entry :: "(nat \<Rightarrow> string) \<Rightarrow> bool \<Rightarrow> LogCall \<Rightarrow> string" where
  "log_entry stamp include_ms lc =
     ''['' @ get_timestamp stamp (lc_now lc) include_ms @ ''][''
       @ level_to_string (lc_level lc) @ '']''
     @ (case lc_place lc of
          Some (path, line) \<Rightarrow>
            if 0 \<le> line then ''['' @ base_name path @ '':'' @ to_string line @ '']'' else ''''
        | None \<Rightarrow> '''')
     @ lc_message lc @ [CHR 0x0A]"

definition write_log :: "(nat \<Rightarrow> string) \<Rightarrow> Logger \<Rightarrow> LogCall \<Rightarrow> Sinks \<Rightarrow> Sinks" where
  "write_log stamp lg lc out =
     (if lc_level lc < lg_min_level lg then out
      else
        let cfg = lg_config lg;
            entry = log_entry stamp (include_milliseconds cfg) lc;
            out = (if log_to_console cfg
                   then out\<lparr>console := console out @ level_to_color_code (lc_level lc) @ entry @ reset_code\<rparr>
                   else out)
        in if log_to_file cfg
           then (case lg_stream lg of
                   OpenStream path \<Rightarrow> out\<lparr>file_text := (file_text out)(path := file_text out path @ entry)\<rparr>
                 | _ \<Rightarrow> out)
           else out)"

definition log_base :: "(nat \<Rightarrow> string) \<Rightarrow> Logger \<Rightarrow> LogCall \<Rightarrow> Sinks \<Rightarrow> Sinks" where
  "log_base stamp lg lc out =
     (if get_min_level lg \<le> lc_level lc then write_log stamp lg lc out else out)"

definition set_config :: "(string \<Rightarrow> bool) \<Rightarrow> LogConfig \<Rightarrow> Logger \<Rightarrow> Sinks \<Rightarrow> Logger \<times> Sinks" where
  "set_config openable cfg lg out =
     (let lg = lg\<lparr>lg_config := cfg, lg_min_level := min_level cfg\<rparr> in
      if log_to_file cfg \<and> log_file_path cfg \<noteq> '''' then
        if openable (log_file_path cfg) then (lg\<lparr>lg_stream := OpenStream (log_file_path cfg)\<rparr>, out)
        else (lg\<lparr>lg_stream := ClosedStream, lg_config := cfg\<lparr>log_to_file := False\<rparr>\<rparr>,
              out\<lparr>console := console out @ ''[Logger] Failed to open: '' @ log_file_path cfg @ [CHR 0x0A]\<rparr>)
      else (lg\<lparr>lg_stream := NoStream\<rparr>, out))"

definition set_min_level :: "LogLevel \<Rightarrow> Logger \<Rightarrow> Logger" where
  "set_min_level level lg =
     lg\<lparr>lg_config := (lg_config lg)\<lparr>min_level := level\<rparr>, lg_min_level := level\<rparr>"

definition get_config :: "Logger \<Rightarrow> LogConfig" where
  "get_config lg = lg_config lg"

section \<open>What a sequence of calls leaves in the sinks\<close>

text \<open>A logger writes to a file that it has open, and its fast path agrees with its configuration.\<close>

definition logger_ok :: "Logger \<Rightarrow> bool" where
  "logger_ok lg \<longleftrightarrow> lg_min_level lg = min_level (lg_config lg)
     \<and> (case lg_stream lg of
          OpenStream path \<Rightarrow> log_to_file (lg_config lg) \<and> path = log_file_path (lg_config lg) \<and> path \<noteq> ''''
        | NoStream \<Rightarrow> log_to_file (lg_config lg) \<longrightarrow> log_file_path (lg_config lg) = ''''
        | ClosedStream \<Rightarrow> \<not> log_to_file (lg_config lg))"

lemma logger_ok_new: "logger_ok new_Logger"
  by (simp add: logger_ok_def new_Logger_def default_LogConfig_def)

lemma logger_ok_set_config: "logger_ok (fst (set_config openable cfg lg out))"
  by (auto simp: logger_ok_def set_config_def Let_def)

lemma logger_ok_set_min_level: "logger_ok lg \<Longrightarrow> logger_ok (set_min_level level lg)"
  by (auto simp: logger_ok_def set_min_level_def split: file_stream.splits)

definition accepted :: "Logger \<Rightarrow> LogCall list \<Rightarrow> LogCall list" where
  "accepted lg calls = filter (\<lambda>lc. lg_min_level lg \<le> lc_level lc) calls"

definition coloured :: "(nat \<Rightarrow> string) \<Rightarrow> bool \<Rightarrow> LogCall \<Rightarrow> string" where
  "coloured stamp ms lc = level_to_color_code (lc_level lc) @ log_entry stamp ms lc @ reset_code"

definition log_all :: "(nat \<Rightarrow> string) \<Rightarrow> Logger \<Rightarrow> LogCall list \<Rightarrow> Sinks \<Rightarrow> Sinks" where
  "log_all stamp lg calls out = foldl (\<lambda>out lc. log_base stamp lg lc out) out calls"

lemma log_base_fields:
  "console (log_base stamp lg lc out) = console out @
     (if lg_min_level lg \<le> lc_level lc \<and> log_to_console (lg_config lg)
      then coloured stamp (include_milliseconds (lg_config lg)) lc else '''')"
  "file_text (log_base stamp lg lc out) p = file_text out p @
     (if lg_min_level lg \<le> lc_level lc \<and> log_to_file (lg_config lg) \<and> lg_stream lg = OpenStream p
      then log_entry stamp (include_milliseconds (lg_config lg)) lc else '''')"
  by (auto simp: log_base_def get_min_level_def write_log_def Let_def coloured_def split: file_stream.splits)


definition demo_logger :: Logger where
  "demo_logger = fst (set_config (\<lambda>_. True)
     (default_LogConfig\<lparr>min_level := WARNING, log_to_file := True, log_file_path := ''sg.log''\<rparr>)
     new_Logger \<lparr>console = '''', file_text = (\<lambda>_. '''')\<rparr>)"

definition demo_calls :: "LogCall list" where
  "demo_calls =
     [\<lparr>lc_level = INFO, lc_message = ''up'', lc_place = None, lc_now = 1\<rparr>,
      \<lparr>lc_level = ERROR, lc_message = ''down'', lc_place = Some (''src/a.cpp'', 7), lc_now = 1042\<rparr>]"


end
