(* ===== verification/Db_Pool.thy ===== *)
theory Db_Pool
  imports Transitions Sg_Prelude "HOL-Library.Multiset"
begin

text \<open>
  The connection pool \<open>DBManager\<close> (\<open>include/DBManager.h\<close>, \<open>src/db/DBManager.cpp\<close>) as a labelled step
  relation of its client threads. A step is a section under the mutex or an operation on the atomic
  counters; between two steps other threads move. A connection is an identity the driver has not
  handed out before; whether the driver connects and whether a connection is still valid is free. A
  thread that waits is woken when the pool is not empty or shut down, or times out otherwise.
\<close>

section \<open>State\<close>

text \<open>Where a client thread is in \<open>acquireConnection\<close> or \<open>releaseConnection\<close>.\<close>

datatype db_phase =
    Outside | Looping | Validating nat | Creating | Queued | Holding nat | Released nat | Returning nat

record DBManager =
  db_minSize :: int
  db_maxSize :: int
  db_pool :: "nat list"
  db_shut :: bool
  total_conns :: int
  active_conns :: int
  wait_threads :: int
  db_threads :: "db_phase list"

text \<open>
  The driver: what it answers to an attempt to connect and to the query that validates a connection.
  Both methods catch every exception.
\<close>

datatype connect_result = Connected nat | NullConnection | ConnectThrows

fun createConnection :: "connect_result \<Rightarrow> nat option" where
  "createConnection (Connected c) = Some c"
| "createConnection NullConnection = None"
| "createConnection ConnectThrows = None"

datatype probe_result = NoStatement | NoResult | Rows bool | ProbeThrows

fun validateConnection :: "probe_result \<Rightarrow> bool" where
  "validateConnection NoStatement = False"
| "validateConnection NoResult = False"
| "validateConnection (Rows b) = b"
| "validateConnection ProbeThrows = False"

text \<open>
  The constructor: the sizes are checked, then each of the \<open>minSize\<close> attempts to connect adds a
  connection to the pool or fails. \<open>driver\<close> is the error of the driver when it cannot be had, \<open>tries\<close>
  what it answers to the attempts to connect. Each connection is counted twice, by the assignment in
  the loop and by \<open>markConnectionCreated\<close>.
\<close>

definition markConnectionCreated :: "DBManager \<Rightarrow> DBManager" where
  "markConnectionCreated d = d\<lparr>total_conns := total_conns d + 1\<rparr>"

definition markConnectionDestroyed :: "DBManager \<Rightarrow> DBManager" where
  "markConnectionDestroyed d = d\<lparr>total_conns := total_conns d - 1\<rparr>"

definition markConnectionAcquired :: "DBManager \<Rightarrow> DBManager" where
  "markConnectionAcquired d = d\<lparr>active_conns := active_conns d + 1\<rparr>"

definition markConnectionReleased :: "DBManager \<Rightarrow> DBManager" where
  "markConnectionReleased d = d\<lparr>active_conns := active_conns d - 1\<rparr>"

fun prefill :: "nat option list \<Rightarrow> DBManager \<Rightarrow> DBManager" where
  "prefill [] d = d"
| "prefill (None # cs) d = prefill cs d"
| "prefill (Some c # cs) d =
     prefill cs (markConnectionCreated
       (d\<lparr>db_pool := db_pool d @ [c], total_conns := total_conns d + 1\<rparr>))"

definition new_DBManager ::
  "string option \<Rightarrow> int \<Rightarrow> int \<Rightarrow> connect_result list \<Rightarrow> nat \<Rightarrow> exn + DBManager" where
  "new_DBManager driver minSize maxSize tries n =
     (if minSize < 0 \<or> maxSize < minSize then Inl InvalidArgument
      else if driver \<noteq> None
      then Inl (RuntimeError (''DBManager: Failed to get MariaDB driver: '' @ the driver))
      else Inr (prefill (map createConnection (take (nat minSize) tries)) \<lparr>db_minSize = minSize, db_maxSize = maxSize, db_pool = [], db_shut = False,
             total_conns = 0, active_conns = 0, wait_threads = 0, db_threads = replicate n Outside\<rparr>))"

text \<open>\<open>shutdown\<close> destroys the idle connections; each is subtracted twice.\<close>

fun drop_idle :: "nat list \<Rightarrow> DBManager \<Rightarrow> DBManager" where
  "drop_idle [] d = d"
| "drop_idle (c # cs) d =
     drop_idle cs (markConnectionDestroyed (d\<lparr>db_pool := cs, total_conns := total_conns d - 1\<rparr>))"

definition db_shutdown :: "DBManager \<Rightarrow> DBManager" where
  "db_shutdown d = (if db_shut d then d else drop_idle (db_pool d) (d\<lparr>db_shut := True\<rparr>))"

definition getCurrentSize :: "DBManager \<Rightarrow> int" where
  "getCurrentSize d = total_conns d"

definition db_isShutdown :: "DBManager \<Rightarrow> bool" where
  "db_isShutdown d = db_shut d"

definition isConnected :: "DBManager \<Rightarrow> bool" where
  "isConnected d \<longleftrightarrow> \<not> db_shut d \<and> 0 < total_conns d"

record PoolStats =
  ps_is_ok :: bool
  ps_current :: int
  ps_active :: int
  ps_idle :: int
  ps_wait :: int

definition getPoolStats :: "DBManager \<Rightarrow> PoolStats" where
  "getPoolStats d =
     \<lparr>ps_is_ok = isConnected d, ps_current = total_conns d, ps_active = active_conns d,
      ps_idle = (if active_conns d < total_conns d then total_conns d - active_conns d else 0),
      ps_wait = wait_threads d\<rparr>"

section \<open>Steps\<close>

abbreviation at :: "DBManager \<Rightarrow> nat \<Rightarrow> db_phase \<Rightarrow> bool" where
  "at d i ph \<equiv> i < length (db_threads d) \<and> db_threads d ! i = ph"

definition goto :: "nat \<Rightarrow> db_phase \<Rightarrow> DBManager \<Rightarrow> DBManager" where
  "goto i ph d = d\<lparr>db_threads := (db_threads d)[i := ph]\<rparr>"

text \<open>The connections that exist: idle ones and those a thread is busy with.\<close>

fun conns_of :: "db_phase \<Rightarrow> nat list" where
  "conns_of (Validating c) = [c]"
| "conns_of (Holding c) = [c]"
| "conns_of (Released c) = [c]"
| "conns_of (Returning c) = [c]"
| "conns_of _ = []"

definition in_use :: "DBManager \<Rightarrow> nat list" where
  "in_use d = concat (map conns_of (db_threads d))"

datatype db_event = Tau | Got nat nat | Null nat | Gave nat nat | Shut

inductive db_step :: "DBManager \<Rightarrow> db_event \<Rightarrow> DBManager \<Rightarrow> bool" where
  begin_null: "\<lbrakk>at d i Outside; db_shut d\<rbrakk> \<Longrightarrow> db_step d (Null i) d"
| begin_acquire: "\<lbrakk>at d i Outside; \<not> db_shut d\<rbrakk> \<Longrightarrow> db_step d Tau (goto i Looping d)"
| loop_null: "\<lbrakk>at d i Looping; db_shut d\<rbrakk> \<Longrightarrow> db_step d (Null i) (goto i Outside d)"
| loop_pop: "\<lbrakk>at d i Looping; \<not> db_shut d; db_pool d = c # cs\<rbrakk>
    \<Longrightarrow> db_step d Tau (goto i (Validating c) (d\<lparr>db_pool := cs\<rparr>))"
| loop_grow: "\<lbrakk>at d i Looping; \<not> db_shut d; db_pool d = []; total_conns d < db_maxSize d\<rbrakk>
    \<Longrightarrow> db_step d Tau (goto i Creating (d\<lparr>total_conns := total_conns d + 1\<rparr>))"
| loop_wait: "\<lbrakk>at d i Looping; \<not> db_shut d; db_pool d = []\<rbrakk>
    \<Longrightarrow> db_step d Tau (goto i Queued (d\<lparr>wait_threads := wait_threads d + 1\<rparr>))"
| valid: "\<lbrakk>at d i (Validating c); validateConnection pr\<rbrakk>
    \<Longrightarrow> db_step d (Got i c) (goto i (Holding c) (markConnectionAcquired d))"
| invalid: "\<lbrakk>at d i (Validating c); \<not> validateConnection pr\<rbrakk>
    \<Longrightarrow> db_step d Tau (goto i Looping (d\<lparr>total_conns := total_conns d - 1\<rparr>))"
| created: "\<lbrakk>at d i Creating; createConnection cr = Some c; c \<notin> set (db_pool d @ in_use d)\<rbrakk>
    \<Longrightarrow> db_step d (Got i c) (goto i (Holding c) (markConnectionAcquired d))"
| create_failed: "\<lbrakk>at d i Creating; createConnection cr = None\<rbrakk>
    \<Longrightarrow> db_step d Tau (goto i Queued (d\<lparr>total_conns := total_conns d - 1, wait_threads := wait_threads d + 1\<rparr>))"
| wake: "\<lbrakk>at d i Queued; db_pool d \<noteq> []; \<not> db_shut d\<rbrakk>
    \<Longrightarrow> db_step d Tau (goto i Looping (d\<lparr>wait_threads := wait_threads d - 1\<rparr>))"
| wake_null: "\<lbrakk>at d i Queued; db_shut d \<or> db_pool d = []\<rbrakk>
    \<Longrightarrow> db_step d (Null i) (goto i Outside (d\<lparr>wait_threads := wait_threads d - 1\<rparr>))"
| release: "at d i (Holding c) \<Longrightarrow> db_step d (Gave i c) (goto i (Released c) (markConnectionReleased d))"
| release_closed: "\<lbrakk>at d i (Released c); db_shut d\<rbrakk>
    \<Longrightarrow> db_step d Tau (goto i Outside (markConnectionDestroyed (d\<lparr>total_conns := total_conns d - 1\<rparr>)))"
| release_open: "\<lbrakk>at d i (Released c); \<not> db_shut d\<rbrakk> \<Longrightarrow> db_step d Tau (goto i (Returning c) d)"
| release_push: "at d i (Returning c)
    \<Longrightarrow> db_step d Tau (goto i Outside (d\<lparr>db_pool := db_pool d @ [c]\<rparr>))"
| shut: "db_step d Shut (db_shutdown d)"

section \<open>Guards\<close>

text \<open>
  \<open>ConnectionGuard\<close>: whether it has its manager, and its connection. The destructor yields the
  connection it gives back; the assignment also yields the connection it drops without giving it back.
\<close>

record ConnectionGuard =
  cg_manager :: bool
  cg_conn :: "nat option"

definition new_guard :: "nat option \<Rightarrow> ConnectionGuard" where
  "new_guard acquired = \<lparr>cg_manager = True, cg_conn = acquired\<rparr>"

definition guard_arrow :: "ConnectionGuard \<Rightarrow> exn + nat" where
  "guard_arrow g =
     (case cg_conn g of
        None \<Rightarrow> Inl (RuntimeError ''DBManager: Accessing null connection via Guard'')
      | Some c \<Rightarrow> Inr c)"

definition guard_get :: "ConnectionGuard \<Rightarrow> nat option" where
  "guard_get g = cg_conn g"

definition guard_bool :: "ConnectionGuard \<Rightarrow> bool" where
  "guard_bool g \<longleftrightarrow> cg_conn g \<noteq> None"

definition guard_destroy :: "ConnectionGuard \<Rightarrow> nat option" where
  "guard_destroy g = (if cg_manager g then cg_conn g else None)"

definition guard_move :: "ConnectionGuard \<Rightarrow> ConnectionGuard \<times> ConnectionGuard" where
  "guard_move other = (\<lparr>cg_manager = cg_manager other, cg_conn = cg_conn other\<rparr>,
                       \<lparr>cg_manager = False, cg_conn = None\<rparr>)"

definition guard_assign ::
  "ConnectionGuard \<Rightarrow> ConnectionGuard \<Rightarrow> (ConnectionGuard \<times> ConnectionGuard) \<times> nat option" where
  "guard_assign self other = (guard_move other, cg_conn self)"

section \<open>Invariants\<close>

definition owners :: "DBManager \<Rightarrow> nat multiset" where
  "owners d = mset (db_pool d) + sum_list (map (\<lambda>ph. mset (conns_of ph)) (db_threads d))"

definition tally :: "(db_phase \<Rightarrow> bool) \<Rightarrow> DBManager \<Rightarrow> int" where
  "tally P d = sum_list (map (\<lambda>ph. of_bool (P ph)) (db_threads d))"

fun is_Holding :: "db_phase \<Rightarrow> bool" where
  "is_Holding (Holding _) = True" | "is_Holding _ = False"

lemma goto_fields [simp]:
  "db_pool (goto i ph d) = db_pool d" "db_shut (goto i ph d) = db_shut d"
  "total_conns (goto i ph d) = total_conns d" "active_conns (goto i ph d) = active_conns d"
  "wait_threads (goto i ph d) = wait_threads d" "db_maxSize (goto i ph d) = db_maxSize d"
  "db_threads (goto i ph d) = (db_threads d)[i := ph]"
  by (simp_all add: goto_def)

lemmas mark_defs [simp] = markConnectionCreated_def markConnectionDestroyed_def
  markConnectionAcquired_def markConnectionReleased_def

lemma tally_goto:
  assumes "at d i ph" "db_threads d' = db_threads d"
  shows "tally P (goto i ph' d') = tally P d - of_bool (P ph) + of_bool (P ph')"
  using sum_list_map_update [of i "db_threads d" "\<lambda>ph. of_bool (P ph) :: int" ph'] assms
  by (simp add: tally_def)

lemma owners_goto:
  assumes "at d i ph" "db_threads d' = db_threads d"
  shows "owners (goto i ph' d') + mset (conns_of ph) + mset (db_pool d)
    = owners d + mset (conns_of ph') + mset (db_pool d')"
  using sum_list_map_update [of i "db_threads d" "\<lambda>ph. mset (conns_of ph)" ph'] assms
  by (simp add: owners_def add_ac)

lemma drop_idle_fields [simp]:
  "db_shut (drop_idle cs d) = db_shut d" "db_threads (drop_idle cs d) = db_threads d"
  "active_conns (drop_idle cs d) = active_conns d" "wait_threads (drop_idle cs d) = wait_threads d"
  "db_maxSize (drop_idle cs d) = db_maxSize d"
  "db_pool (drop_idle cs d) = (if cs = [] then db_pool d else [])"
  "total_conns (drop_idle cs d) = total_conns d - 2 * int (length cs)"
  by (induction cs arbitrary: d) simp_all

lemma shutdown_fields [simp]:
  "db_shut (db_shutdown d)" "db_threads (db_shutdown d) = db_threads d"
  "active_conns (db_shutdown d) = active_conns d" "wait_threads (db_shutdown d) = wait_threads d"
  "db_maxSize (db_shutdown d) = db_maxSize d"
  "db_pool (db_shutdown d) = (if db_shut d then db_pool d else [])"
  by (simp_all add: db_shutdown_def)

text \<open>The counters of borrowed connections and of waiting threads are exact.\<close>

definition inv_tallies :: "db_event list \<Rightarrow> DBManager \<Rightarrow> bool" where
  "inv_tallies es d \<longleftrightarrow> active_conns d = tally is_Holding d \<and> wait_threads d = tally (\<lambda>ph. ph = Queued) d"

lemma tallies_step:
  assumes "inv_tallies es d" "db_step d e d'"
  shows "inv_tallies (es @ [e]) d'"
  using assms(2,1)
  by (induction rule: db_step.induct) (auto simp: inv_tallies_def tally_goto, simp_all add: tally_def)

text \<open>No connection is in two places.\<close>

definition inv_owners :: "bool \<Rightarrow> db_event list \<Rightarrow> DBManager \<Rightarrow> bool" where
  "inv_owners fresh es d \<longleftrightarrow> (fresh \<longrightarrow> (\<forall>c. count (owners d) c \<le> 1))"

lemma owners_set: "set_mset (owners d) = set (db_pool d @ in_use d)"
proof -
  have "set_mset (sum_list (map (\<lambda>ph. mset (conns_of ph)) phs)) = set (concat (map conns_of phs))" for phs
    by (induction phs) auto
  then show ?thesis by (simp add: owners_def in_use_def)
qed

lemma owners_same:
  assumes "at d i ph" "db_threads d' = db_threads d" "db_pool d' = db_pool d" "conns_of ph' = conns_of ph"
  shows "owners (goto i ph' d') = owners d"
  using owners_goto [OF assms(1,2), of ph'] assms(3,4) by simp

lemma add_mset_le: "add_mset c A = B \<Longrightarrow> A \<subseteq># B"
  by auto

lemma owners_step_cases:
  assumes "db_step d e d'"
  shows "owners d' \<subseteq># owners d \<or> (\<exists>c. c \<notin># owners d \<and> owners d' = add_mset c (owners d))"
  using assms
proof (induction rule: db_step.induct)
  case (created d i cr c)
  have "owners (goto i (Holding c) (markConnectionAcquired d)) = add_mset c (owners d)"
    using owners_goto [OF created(1), of "markConnectionAcquired d" "Holding c"] by simp
  then show ?case using created(3) by (auto simp: owners_set)
next
  case (invalid d i c pr)
  then show ?case using owners_goto [OF invalid(1), of "d\<lparr>total_conns := total_conns d - 1\<rparr>" Looping]
    by (simp add: add_mset_le)
next
  case (release_closed d i c)
  then show ?case
    using owners_goto [OF release_closed(1), of "markConnectionDestroyed (d\<lparr>total_conns := total_conns d - 1\<rparr>)" Outside]
    by (simp add: add_mset_le)
next
  case (loop_pop d i c cs)
  then show ?case using owners_goto [OF loop_pop(1), of "d\<lparr>db_pool := cs\<rparr>" "Validating c"] by simp
next
  case (release_push d i c)
  then show ?case using owners_goto [OF release_push, of "d\<lparr>db_pool := db_pool d @ [c]\<rparr>" Outside] by simp
next
  case (shut d)
  then show ?case by (auto simp: owners_def)
qed (simp_all add: owners_same)

lemma owners_step:
  assumes "inv_owners fresh es d" "db_step d e d'"
  shows "inv_owners fresh (es @ [e]) d'"
  using owners_step_cases [OF assms(2)] assms(1)
  by (auto simp: inv_owners_def not_in_iff dest: mset_subset_eq_count [of _ "owners d"] intro: order_trans)

text \<open>
  The connections that exist or are being created; with \<open>pre\<close> connections made by the constructor,
  the counter of all connections is too high by \<open>pre\<close> until the pool is shut down.
\<close>

definition alive :: "DBManager \<Rightarrow> int" where
  "alive d = int (size (owners d)) + tally (\<lambda>ph. ph = Creating) d"

lemma alive_goto:
  assumes "at d i ph" "db_threads d' = db_threads d"
  shows "alive (goto i ph' d') = alive d
    + int (length (conns_of ph')) + int (length (db_pool d')) + of_bool (ph' = Creating)
    - int (length (conns_of ph)) - int (length (db_pool d)) - of_bool (ph = Creating)"
  using arg_cong [OF owners_goto [OF assms, of ph'], of size] tally_goto [OF assms, of "\<lambda>ph. ph = Creating" ph']
  by (simp add: alive_def)

lemma alive_shutdown: "alive (db_shutdown d) \<le> alive d"
  by (simp add: alive_def owners_def tally_def)

definition inv_total :: "int \<Rightarrow> int \<Rightarrow> db_event list \<Rightarrow> DBManager \<Rightarrow> bool" where
  "inv_total pre mx es d \<longleftrightarrow>
     db_maxSize d = mx \<and> (\<not> db_shut d \<longrightarrow> total_conns d = alive d + pre) \<and> alive d \<le> max (mx - pre) pre"

lemma total_step:
  assumes "inv_total pre mx es d" "db_step d e d'"
  shows "inv_total pre mx (es @ [e]) d'"
  using assms(2,1)
proof (induction rule: db_step.induct)
  case (shut d)
  then show ?case using alive_shutdown [of d] by (auto simp: inv_total_def)
qed (auto simp: inv_total_def alive_goto)

text \<open>The state the constructor leaves: its connections are in the pool, each counted twice.\<close>

definition made_conns :: "nat option list \<Rightarrow> nat list" where
  "made_conns made = List.map_filter id made"

lemma prefill_fields:
  "db_pool (prefill made d) = db_pool d @ made_conns made"
  "total_conns (prefill made d) = total_conns d + 2 * int (length (made_conns made))"
  "db_shut (prefill made d) = db_shut d" "db_threads (prefill made d) = db_threads d"
  "active_conns (prefill made d) = active_conns d" "wait_threads (prefill made d) = wait_threads d"
  "db_maxSize (prefill made d) = db_maxSize d"
  by (induction made d rule: prefill.induct) (simp_all add: made_conns_def map_filter_simps)

definition filled_pool :: "int \<Rightarrow> int \<Rightarrow> nat option list \<Rightarrow> nat \<Rightarrow> DBManager" where
  "filled_pool minSize maxSize made n =
     prefill made \<lparr>db_minSize = minSize, db_maxSize = maxSize, db_pool = [], db_shut = False,
       total_conns = 0, active_conns = 0, wait_threads = 0, db_threads = replicate n Outside\<rparr>"

text \<open>The connections of the constructor, given what the driver answers.\<close>

definition first_conns :: "int \<Rightarrow> connect_result list \<Rightarrow> nat option list" where
  "first_conns minSize tries = map createConnection (take (nat minSize) tries)"

lemma new_DBManager_Inr:
  "new_DBManager driver minSize maxSize tries n = Inr d \<longleftrightarrow>
     driver = None \<and> 0 \<le> minSize \<and> minSize \<le> maxSize
     \<and> d = filled_pool minSize maxSize (first_conns minSize tries) n"
  by (auto simp: new_DBManager_def filled_pool_def first_conns_def)

lemma filled_fields:
  "db_pool (filled_pool mn mx made n) = made_conns made" "db_maxSize (filled_pool mn mx made n) = mx"
  "total_conns (filled_pool mn mx made n) = 2 * int (length (made_conns made))"
  "db_shut (filled_pool mn mx made n) = False" "active_conns (filled_pool mn mx made n) = 0"
  "wait_threads (filled_pool mn mx made n) = 0" "db_threads (filled_pool mn mx made n) = replicate n Outside"
  by (simp_all add: filled_pool_def prefill_fields)

lemma none_start [simp]:
  "sum_list (replicate n ({#} :: nat multiset)) = {#}" "sum_list (replicate n (0 :: int)) = 0"
  by (induction n) auto

lemma filled_owners: "owners (filled_pool mn mx made n) = mset (made_conns made)"
  by (simp add: owners_def filled_fields)

interpretation db_tallies: history_invariant "filled_pool mn mx made n" db_step inv_tallies for mn mx made n
  by unfold_locales (simp add: inv_tallies_def tally_def filled_fields, rule tallies_step)

interpretation db_total: history_invariant "filled_pool mn mx made n" db_step
    "inv_total (int (length (made_conns made))) mx" for mn mx made n
  by unfold_locales (simp add: inv_total_def alive_def filled_owners filled_fields tally_def, rule total_step)

interpretation db_owners: history_invariant "filled_pool mn mx made n" db_step
    "inv_owners (distinct (made_conns made))" for mn mx made n
proof
  show "inv_owners (distinct (made_conns made)) [] (filled_pool mn mx made n)"
    by (auto simp: inv_owners_def filled_owners distinct_count_atmost_1)
qed (rule owners_step)

section \<open>Properties\<close>

lemma two_owners:
  assumes "\<forall>c. count (owners d) c \<le> 1" "at d i ph" "at d j ph'" "i \<noteq> j" "c \<in> set (conns_of ph)"
  shows "c \<notin> set (conns_of ph') \<and> c \<notin> set (db_pool d)"
proof -
  let ?f = "\<lambda>ph. mset (conns_of ph)"
  have "owners d = mset (db_pool d) + (sum_list (map ?f ((db_threads d)[i := Outside])) + ?f ph)"
    using sum_list_map_update [of i "db_threads d" ?f Outside] assms(2) by (simp add: owners_def)
  also have "sum_list (map ?f ((db_threads d)[i := Outside]))
      = sum_list (map ?f ((db_threads d)[i := Outside, j := Outside])) + ?f ph'"
    using sum_list_map_update [of j "(db_threads d)[i := Outside]" ?f Outside] assms(3,4) by simp
  finally have "count (mset (db_pool d)) c + count (?f ph') c + count (?f ph) c \<le> count (owners d) c" by simp
  then have "count (mset (db_pool d)) c + count (?f ph') c + count (?f ph) c \<le> 1"
    using assms(1) order_trans by blast
  moreover have "1 \<le> count (?f ph) c" using assms(5) by (simp add: Suc_le_eq)
  ultimately have "count (mset (db_pool d)) c = 0" "count (?f ph') c = 0" by linarith+
  then show ?thesis by (simp_all add: count_eq_zero_iff)
qed

text \<open>
  C8. A borrowed connection is exclusive: after every interleaving of threads that acquire, release
  and shut down, no two threads hold the same connection, and a held connection is not in the pool,
  as long as the connections the constructor made were different.
\<close>

theorem connection_exclusive:
  assumes "new_DBManager driver mn mx tries n = Inr d0" "distinct (made_conns (first_conns mn tries))"
    and "run db_step d0 es d"
    and "at d i (Holding c)" "at d j (Holding c')" "i \<noteq> j"
  shows "c \<noteq> c' \<and> c \<notin> set (db_pool d)"
proof -
  have "d0 = filled_pool mn mx (first_conns mn tries) n" using assms(1) by (simp add: new_DBManager_Inr)
  from db_owners.inv_run [OF assms(3) [unfolded this]] assms(2)
  have "\<forall>c. count (owners d) c \<le> 1" by (simp add: inv_owners_def)
  from two_owners [OF this assms(4-6), of c] show ?thesis by auto
qed

definition demo_db :: DBManager where
  "demo_db = filled_pool 1 3 [Some 7] 2"

lemma demo_db_new: "new_DBManager None 1 3 [Connected 7] 2 = Inr demo_db"
  by (simp add: new_DBManager_Inr demo_db_def first_conns_def)

lemma demo_db_fields:
  "db_pool demo_db = [7]" "db_shut demo_db = False" "total_conns demo_db = 2" "db_maxSize demo_db = 3"
  "db_threads demo_db = [Outside, Outside]"
  by (simp_all add: demo_db_def filled_fields made_conns_def map_filter_simps numeral_2_eq_2)

text \<open>A run in which one thread takes the idle connection and the other creates one.\<close>

lemma demo_db_run: "\<exists>es d. run db_step demo_db es d \<and> at d 0 (Holding 7) \<and> at d 1 (Holding 8)"
proof -
  let ?d1 = "goto 0 Looping demo_db"
  let ?d2 = "goto 0 (Validating 7) (?d1\<lparr>db_pool := []\<rparr>)"
  let ?d3 = "goto 0 (Holding 7) (markConnectionAcquired ?d2)"
  let ?d4 = "goto 1 Looping ?d3"
  let ?d5 = "goto 1 Creating (?d4\<lparr>total_conns := total_conns ?d4 + 1\<rparr>)"
  let ?d6 = "goto 1 (Holding 8) (markConnectionAcquired ?d5)"
  note f = demo_db_fields
  have "db_step demo_db Tau ?d1" by (rule begin_acquire) (simp_all add: f)
  moreover have "db_step ?d1 Tau ?d2" by (rule loop_pop) (simp_all add: f)
  moreover have "db_step ?d2 (Got 0 7) ?d3" by (rule valid [of _ _ _ "Rows True"]) (simp_all add: f)
  moreover have "db_step ?d3 Tau ?d4" by (rule begin_acquire) (simp_all add: f)
  moreover have "db_step ?d4 Tau ?d5" by (rule loop_grow) (simp_all add: f)
  moreover have "db_step ?d5 (Got 1 8) ?d6" by (rule created [of _ _ "Connected 8"]) (simp_all add: f in_use_def)
  ultimately have "run db_step demo_db [Tau, Tau, Got 0 7, Tau, Tau, Got 1 8] ?d6"
    by (blast intro: run_Cons run_nil)
  moreover have "at ?d6 0 (Holding 7)" "at ?d6 1 (Holding 8)" by (simp_all add: f)
  ultimately show ?thesis by blast
qed

theorem connection_exclusive_witness:
  "\<exists>es d. run db_step demo_db es d \<and> (7 :: nat) \<noteq> 8 \<and> 7 \<notin> set (db_pool d)"
proof -
  obtain es d where d: "run db_step demo_db es d" "at d 0 (Holding 7)" "at d 1 (Holding 8)"
    using demo_db_run by blast
  have m: "distinct (made_conns (first_conns 1 [Connected 7]))"
    by (simp add: first_conns_def made_conns_def map_filter_simps)
  from connection_exclusive [OF demo_db_new m d] d(1) show ?thesis by auto
qed

text \<open>
  C32. The counters of the pool follow its threads: the number of active connections is the number of
  threads holding one and the number of waiting threads is the number queued; but as long as the pool
  is open the total is too high by the connections the constructor made, so that the connections that
  exist or are being created never exceed the larger of \<open>maxSize\<close> less these and these alone: a pool
  configured for twenty connections that starts with five never holds more than fifteen.
\<close>

theorem pool_capacity:
  assumes "new_DBManager driver mn mx tries n = Inr d0" "run db_step d0 es d"
  shows "active_conns d = tally is_Holding d \<and> wait_threads d = tally (\<lambda>ph. ph = Queued) d
    \<and> (db_shut d \<or> total_conns d = alive d + int (length (made_conns (first_conns mn tries))))
    \<and> alive d \<le> max (mx - int (length (made_conns (first_conns mn tries)))) (int (length (made_conns (first_conns mn tries))))"
proof -
  have "d0 = filled_pool mn mx (first_conns mn tries) n" using assms(1) by (simp add: new_DBManager_Inr)
  note r = assms(2) [unfolded this]
  show ?thesis
    using db_tallies.inv_run [OF r] db_total.inv_run [OF r] by (auto simp: inv_tallies_def inv_total_def)
qed

theorem pool_capacity_witness:
  "\<exists>es d. run db_step demo_db es d
    \<and> active_conns d = tally is_Holding d \<and> wait_threads d = tally (\<lambda>ph. ph = Queued) d
    \<and> (db_shut d \<or> total_conns d = alive d + int (length (made_conns (first_conns 1 [Connected 7]))))
    \<and> alive d \<le> max (3 - int (length (made_conns (first_conns 1 [Connected 7])))) (int (length (made_conns (first_conns 1 [Connected 7]))))"
  using demo_db_run pool_capacity [OF demo_db_new] by blast

definition lazy_db :: DBManager where
  "lazy_db = filled_pool 0 5 [] 1"

text \<open>
  Closing the pool corrupts its total: a thread that borrows a connection created on demand and
  gives it back after the shutdown leaves the counter of all connections below zero, because a
  connection destroyed then is subtracted twice.
\<close>

theorem shutdown_total_negative:
  "new_DBManager None 0 5 [] 1 = Inr lazy_db
   \<and> (\<exists>es d. run db_step lazy_db es d \<and> db_shut d \<and> db_pool d = [] \<and> db_threads d = [Outside]
    \<and> total_conns d = -1)"
proof -
  let ?d0 = lazy_db
  let ?d1 = "goto 0 Looping ?d0"
  let ?d2 = "goto 0 Creating (?d1\<lparr>total_conns := total_conns ?d1 + 1\<rparr>)"
  let ?d3 = "goto 0 (Holding 1) (markConnectionAcquired ?d2)"
  let ?d4 = "db_shutdown ?d3"
  let ?d5 = "goto 0 (Released 1) (markConnectionReleased ?d4)"
  let ?d6 = "goto 0 Outside (markConnectionDestroyed (?d5\<lparr>total_conns := total_conns ?d5 - 1\<rparr>))"
  have f: "db_pool ?d0 = []" "db_shut ?d0 = False" "total_conns ?d0 = 0" "db_maxSize ?d0 = 5"
    "db_threads ?d0 = [Outside]"
    by (simp_all add: lazy_db_def filled_fields made_conns_def map_filter_simps)
  have "db_step ?d0 Tau ?d1" by (rule begin_acquire) (simp_all add: f)
  moreover have "db_step ?d1 Tau ?d2" by (rule loop_grow) (simp_all add: f)
  moreover have "db_step ?d2 (Got 0 1) ?d3" by (rule created [of _ _ "Connected 1"]) (simp_all add: f in_use_def)
  moreover have "db_step ?d3 Shut ?d4" by (rule shut)
  moreover have "db_step ?d4 (Gave 0 1) ?d5" by (rule release) (simp add: f)
  moreover have "db_step ?d5 Tau ?d6" by (rule release_closed) (simp_all add: f)
  ultimately have "run db_step ?d0 [Tau, Tau, Got 0 1, Shut, Gave 0 1, Tau] ?d6"
    by (blast intro: run_Cons run_nil)
  moreover have "db_shut ?d6" "db_pool ?d6 = []" "db_threads ?d6 = [Outside]" "total_conns ?d6 = -1"
    by (simp_all add: f db_shutdown_def)
  moreover have "new_DBManager None 0 5 [] 1 = Inr lazy_db" by (simp add: new_DBManager_Inr lazy_db_def first_conns_def)
  ultimately show ?thesis by blast
qed

end
