(* ===== verification/Health_Checker.thy ===== *)
theory Health_Checker
  imports Scheduler Db_Pool
begin

text \<open>
  \<open>HealthChecker\<close> (\<open>include/HealthChecker.h\<close>, \<open>src/util/HealthChecker.cpp\<close>): the checks of the cache, the
  connection pool and the scheduler, the overall status, the score and the JSON report. The components
  are optional, as the pointers are; the measured times, the formatted time stamp and the text of an
  exception (\<open>what\<close>) are arguments.
\<close>

datatype HealthStatus = HEALTHY | DEGRADED | UNHEALTHY

record ComponentHealth =
  ch_name :: string
  ch_status :: HealthStatus
  ch_details :: string
  ch_response_ms :: int

record HealthReport =
  hr_overall :: HealthStatus
  hr_components :: "ComponentHealth list"
  hr_timestamp :: string
  hr_score :: int

fun statusToString :: "HealthStatus \<Rightarrow> string" where
  "statusToString HEALTHY = ''healthy''"
| "statusToString DEGRADED = ''degraded''"
| "statusToString UNHEALTHY = ''unhealthy''"

definition uninitialized :: "string \<Rightarrow> ComponentHealth" where
  "uninitialized name =
     \<lparr>ch_name = name, ch_status = UNHEALTHY, ch_details = ''uninitialized'', ch_response_ms = 0\<rparr>"

definition checkRedis ::
  "(exn \<Rightarrow> string) \<Rightarrow> 'w CacheManager option \<Rightarrow> int \<Rightarrow> ('w, ComponentHealth) state" where
  "checkRedis what cache rtt =
     (let health = uninitialized ''redis'' in
      (case cache of
         None \<Rightarrow> ret health
       | Some cm \<Rightarrow> do {
           r \<leftarrow> ping cm;
           ret (case r of
                  Inl e \<Rightarrow> health\<lparr>ch_status := UNHEALTHY, ch_details := ''exception: '' @ what e\<rparr>
                | Inr up \<Rightarrow>
                    let health = health\<lparr>ch_response_ms := rtt\<rparr> in
                    if \<not> up
                    then health\<lparr>ch_status := UNHEALTHY, ch_details := ''redis connection lost''\<rparr>
                    else if 50 < rtt then health\<lparr>ch_status := DEGRADED, ch_details := ''high latency''\<rparr>
                    else health\<lparr>ch_status := HEALTHY, ch_details := ''ok''\<rparr>)
         }))"

definition checkDatabase :: "DBManager option \<Rightarrow> int \<Rightarrow> ComponentHealth" where
  "checkDatabase db rtt =
     (let health = uninitialized ''database'' in
      (case db of
         None \<Rightarrow> health
       | Some d \<Rightarrow>
           let stats = getPoolStats d; health = health\<lparr>ch_response_ms := rtt\<rparr> in
           if \<not> ps_is_ok stats
           then health\<lparr>ch_status := UNHEALTHY, ch_details := ''db self-check failed''\<rparr>
           else if 0 < ps_wait stats \<or> ps_idle stats = 0
           then health\<lparr>ch_status := DEGRADED,
                       ch_details := ''pool pressure (waiting: '' @ to_string (ps_wait stats) @ '')''\<rparr>
           else health\<lparr>ch_status := HEALTHY,
                       ch_details := ''pool usage: '' @ to_string (ps_active stats) @ ''/''
                         @ to_string (ps_current stats)\<rparr>))"

definition checkScheduler :: "Scheduler option \<Rightarrow> ComponentHealth" where
  "checkScheduler scheduler =
     (let health = \<lparr>ch_name = ''scheduler'', ch_status = HEALTHY, ch_details = ''active'', ch_response_ms = 0\<rparr> in
      (case scheduler of
         None \<Rightarrow> health\<lparr>ch_status := UNHEALTHY, ch_details := ''uninitialized''\<rparr>
       | Some sc \<Rightarrow>
           let metrics = getMetrics sc; total = m_total_publish_req metrics + m_total_play_req metrics
           in health\<lparr>ch_details := ''processed_requests: '' @ to_string (uint total)\<rparr>))"

fun overall_from :: "bool \<Rightarrow> ComponentHealth list \<Rightarrow> HealthStatus" where
  "overall_from has_degraded [] = (if has_degraded then DEGRADED else HEALTHY)"
| "overall_from has_degraded (part # parts) =
     (if ch_status part = UNHEALTHY then UNHEALTHY
      else overall_from (has_degraded \<or> ch_status part = DEGRADED) parts)"

definition calculateOverallStatus :: "ComponentHealth list \<Rightarrow> HealthStatus" where
  "calculateOverallStatus parts = overall_from False parts"

fun score_of :: "HealthStatus \<Rightarrow> int" where
  "score_of HEALTHY = 100" | "score_of DEGRADED = 50" | "score_of UNHEALTHY = 0"

definition calculateHealthScore :: "ComponentHealth list \<Rightarrow> int" where
  "calculateHealthScore parts =
     (if parts = [] then 0
      else foldl (\<lambda>total part. total + score_of (ch_status part)) 0 parts div int (length parts))"

definition check ::
  "(exn \<Rightarrow> string) \<Rightarrow> 'w CacheManager option \<Rightarrow> DBManager option \<Rightarrow> Scheduler option \<Rightarrow> string \<Rightarrow> int \<Rightarrow> int \<Rightarrow>
   ('w, HealthReport) state" where
  "check what cache db scheduler timestamp redis_ms db_ms = do {
     redis \<leftarrow> checkRedis what cache redis_ms;
     let parts = [redis, checkDatabase db db_ms, checkScheduler scheduler];
     ret \<lparr>hr_overall = calculateOverallStatus parts, hr_components = parts, hr_timestamp = timestamp,
          hr_score = calculateHealthScore parts\<rparr>
   }"

text \<open>\<open>j[key] = v\<close> on an object, whose fields stay in key order.\<close>

fun obj_put :: "string \<Rightarrow> json \<Rightarrow> (string \<times> json) list \<Rightarrow> (string \<times> json) list" where
  "obj_put k v [] = [(k, v)]"
| "obj_put k v ((k', v') # ps) =
     (if k = k' then (k, v) # ps else if k < k' then (k, v) # (k', v') # ps else (k', v') # obj_put k v ps)"

definition health_component_json :: "ComponentHealth \<Rightarrow> json" where
  "health_component_json part =
     JObj ([(''details'', JStr (ch_details part))]
       @ (if 0 < ch_response_ms part then [(''latency_ms'', JInt (ch_response_ms part))] else [])
       @ [(''status'', JStr (statusToString (ch_status part)))])"

definition toJson :: "HealthReport \<Rightarrow> json" where
  "toJson report =
     JObj [(''components'',
            JObj (foldl (\<lambda>ps part. obj_put (ch_name part) (health_component_json part) ps) []
                    (hr_components report))),
           (''score'', JInt (hr_score report)),
           (''status'', JStr (statusToString (hr_overall report))),
           (''timestamp'', JStr (hr_timestamp report))]"

section \<open>Status and score agree\<close>

lemma overall_from_UNHEALTHY:
  "overall_from b parts = UNHEALTHY \<longleftrightarrow> list_ex (\<lambda>c. ch_status c = UNHEALTHY) parts"
  by (induction b parts rule: overall_from.induct) auto

lemma overall_from_HEALTHY:
  "overall_from b parts = HEALTHY \<longleftrightarrow> \<not> b \<and> list_all (\<lambda>c. ch_status c = HEALTHY) parts"
proof (induction b parts rule: overall_from.induct)
  case (2 b c cs)
  then show ?case by (cases "ch_status c") auto
qed simp

lemma score_fold:
  "foldl (\<lambda>total part. total + score_of (ch_status part)) n parts
   = n + sum_list (map (\<lambda>c. score_of (ch_status c)) parts)"
  by (induction parts arbitrary: n) auto

lemma score_sum:
  "0 \<le> sum_list (map (\<lambda>c. score_of (ch_status c)) parts)"
  "sum_list (map (\<lambda>c. score_of (ch_status c)) parts) \<le> 100 * int (length parts)"
  "sum_list (map (\<lambda>c. score_of (ch_status c)) parts) = 100 * int (length parts)
     \<longleftrightarrow> list_all (\<lambda>c. ch_status c = HEALTHY) parts"
proof -
  have one: "0 \<le> score_of x" "score_of x \<le> 100" "score_of x = 100 \<longleftrightarrow> x = HEALTHY" for x
    by (cases x; simp)+
  show low: "0 \<le> sum_list (map (\<lambda>c. score_of (ch_status c)) parts)" for parts
    using one(1) by (intro sum_list_nonneg) auto
  show high: "sum_list (map (\<lambda>c. score_of (ch_status c)) parts) \<le> 100 * int (length parts)" for parts
  proof (induction parts)
    case (Cons c cs)
    then show ?case using one(2) [of "ch_status c"] by simp
  qed simp
  show "sum_list (map (\<lambda>c. score_of (ch_status c)) parts) = 100 * int (length parts)
     \<longleftrightarrow> list_all (\<lambda>c. ch_status c = HEALTHY) parts"
  proof (induction parts)
    case (Cons c cs)
    then show ?case
      using one(2,3) [of "ch_status c"] high [of cs] by auto
  qed simp
qed

lemma div_full:
  assumes "0 < (n :: int)" "x \<le> 100 * n"
  shows "x div n = 100 \<longleftrightarrow> x = 100 * n"
proof
  assume "x div n = 100"
  then have "x = n * 100 + x mod n" by (metis mult_div_mod_eq)
  then show "x = 100 * n" using assms pos_mod_sign [of n x] by linarith
qed (use assms in simp)

lemma score_bounds:
  assumes "parts \<noteq> []"
  shows "0 \<le> calculateHealthScore parts \<and> calculateHealthScore parts \<le> 100
    \<and> (calculateHealthScore parts = 100 \<longleftrightarrow> calculateOverallStatus parts = HEALTHY)"
proof -
  let ?s = "sum_list (map (\<lambda>c. score_of (ch_status c)) parts)" and ?n = "int (length parts)"
  have n: "0 < ?n" using assms by simp
  have v: "calculateHealthScore parts = ?s div ?n" using assms by (simp add: calculateHealthScore_def score_fold)
  have "?s div ?n \<le> 100 * ?n div ?n" using n score_sum(2) [of parts] by (intro zdiv_mono1) auto
  then show ?thesis
    using n v score_sum [of parts] div_full [OF n score_sum(2) [of parts]]
    by (auto simp: calculateOverallStatus_def overall_from_HEALTHY pos_imp_zdiv_nonneg_iff)
qed

lemma checkRedis_name: "ch_name (fst (run_state (checkRedis what cache ms) w)) = ''redis''"
  by (auto simp: checkRedis_def uninitialized_def Let_def State_Monad.bind_def
      split: option.splits sum.splits prod.splits)

lemma check_run:
  "fst (run_state (check what cache db scheduler ts redis_ms db_ms) w) =
     (let parts = [fst (run_state (checkRedis what cache redis_ms) w), checkDatabase db db_ms, checkScheduler scheduler]
      in \<lparr>hr_overall = calculateOverallStatus parts, hr_components = parts, hr_timestamp = ts,
          hr_score = calculateHealthScore parts\<rparr>)"
  by (simp add: check_def State_Monad.bind_def Let_def split: prod.splits)

text \<open>
  C39. A health report is consistent: whatever the cache, the pool and the scheduler answer, it has one
  entry for each of the three, its score lies between 0 and 100, the score is 100 exactly when the
  overall status is healthy, and the overall status is unhealthy exactly when one of the three is.
\<close>

theorem health_report_consistent:
  "hr_score (fst (run_state (check what cache db scheduler ts redis_ms db_ms) w)) \<in> {0..100}
   \<and> (hr_score (fst (run_state (check what cache db scheduler ts redis_ms db_ms) w)) = 100
      \<longleftrightarrow> hr_overall (fst (run_state (check what cache db scheduler ts redis_ms db_ms) w)) = HEALTHY)
   \<and> (hr_overall (fst (run_state (check what cache db scheduler ts redis_ms db_ms) w)) = UNHEALTHY
      \<longleftrightarrow> list_ex (\<lambda>c. ch_status c = UNHEALTHY)
            (hr_components (fst (run_state (check what cache db scheduler ts redis_ms db_ms) w))))
   \<and> map ch_name (hr_components (fst (run_state (check what cache db scheduler ts redis_ms db_ms) w)))
      = [''redis'', ''database'', ''scheduler'']"
proof -
  let ?parts = "[fst (run_state (checkRedis what cache redis_ms) w), checkDatabase db db_ms, checkScheduler scheduler]"
  have "map ch_name ?parts = [''redis'', ''database'', ''scheduler'']"
    by (auto simp: checkRedis_name checkDatabase_def checkScheduler_def uninitialized_def Let_def
        split: option.splits)
  moreover have "calculateOverallStatus ?parts = UNHEALTHY \<longleftrightarrow> list_ex (\<lambda>c. ch_status c = UNHEALTHY) ?parts"
    by (simp only: calculateOverallStatus_def overall_from_UNHEALTHY)
  ultimately show ?thesis
    using score_bounds [of ?parts] by (simp only: check_run Let_def HealthReport.simps) simp
qed

end
