(* ===== verification/Metrics_Slots.thy ===== *)
theory Metrics_Slots
  imports Transitions "HOL-Library.Word"
begin

text \<open>
  The request counters of the server (\<open>include/ServerMetricsProvider.h\<close>,
  \<open>src/metrics/ServerMetricsProvider.cpp\<close>): \<open>WorkerStatsSlot\<close>, a slot that one worker writes and any
  thread reads without a lock, as a step relation of its reads and writes in sequentially consistent
  order, and \<open>ThreadLocalRegistry\<close>, which hands out the slots and sums them, as functions.
\<close>

unbundle bit_operations_syntax

section \<open>The slot\<close>

type_synonym triple = "64 word \<times> 64 word \<times> 64 word"

record Slot =
  sl_seq :: "64 word"
  sl_total :: "64 word"
  sl_success :: "64 word"
  sl_failed :: "64 word"

text \<open>
  Where \<open>update\<close> and \<open>read\<close> are: the writer carries the triple it stores, the reader the sequence number
  it saw first and what it has read since.
\<close>

datatype writer_pc =
    WIdle | WTotal triple | WSuccess triple | WFailed triple | WClose triple

datatype reader_pc =
    RStart | RTotal "64 word" | RSuccess "64 word" "64 word" | RFailed "64 word" "64 word" "64 word"
  | RCheck "64 word" triple | RDone triple

record seqlock =
  slot :: Slot
  wpc :: writer_pc
  rpc :: reader_pc

datatype seq_event = Wrote triple | Stored | Closed_write | Read_step | Returned triple | Read_again

inductive seq_step :: "seqlock \<Rightarrow> seq_event \<Rightarrow> seqlock \<Rightarrow> bool" where
  w_open: "wpc q = WIdle
    \<Longrightarrow> seq_step q (Wrote x) (q\<lparr>slot := (slot q)\<lparr>sl_seq := sl_seq (slot q) + 1\<rparr>, wpc := WTotal x\<rparr>)"
| w_total: "wpc q = WTotal (t, s, f)
    \<Longrightarrow> seq_step q Stored (q\<lparr>slot := (slot q)\<lparr>sl_total := t\<rparr>, wpc := WSuccess (t, s, f)\<rparr>)"
| w_success: "wpc q = WSuccess (t, s, f)
    \<Longrightarrow> seq_step q Stored (q\<lparr>slot := (slot q)\<lparr>sl_success := s\<rparr>, wpc := WFailed (t, s, f)\<rparr>)"
| w_failed: "wpc q = WFailed (t, s, f)
    \<Longrightarrow> seq_step q Stored (q\<lparr>slot := (slot q)\<lparr>sl_failed := f\<rparr>, wpc := WClose (t, s, f)\<rparr>)"
| w_close: "wpc q = WClose x
    \<Longrightarrow> seq_step q Closed_write (q\<lparr>slot := (slot q)\<lparr>sl_seq := sl_seq (slot q) + 1\<rparr>, wpc := WIdle\<rparr>)"
| r_seq: "rpc q = RStart \<Longrightarrow> seq_step q Read_step (q\<lparr>rpc := RTotal (sl_seq (slot q))\<rparr>)"
| r_total: "rpc q = RTotal s1 \<Longrightarrow> seq_step q Read_step (q\<lparr>rpc := RSuccess s1 (sl_total (slot q))\<rparr>)"
| r_success: "rpc q = RSuccess s1 t
    \<Longrightarrow> seq_step q Read_step (q\<lparr>rpc := RFailed s1 t (sl_success (slot q))\<rparr>)"
| r_failed: "rpc q = RFailed s1 t s
    \<Longrightarrow> seq_step q Read_step (q\<lparr>rpc := RCheck s1 (t, s, sl_failed (slot q))\<rparr>)"
| r_again: "\<lbrakk>rpc q = RCheck s1 x; odd s1 \<or> s1 \<noteq> sl_seq (slot q)\<rbrakk>
    \<Longrightarrow> seq_step q Read_again (q\<lparr>rpc := RStart\<rparr>)"
| r_done: "\<lbrakk>rpc q = RCheck s1 x; \<not> (odd s1 \<or> s1 \<noteq> sl_seq (slot q))\<rbrakk>
    \<Longrightarrow> seq_step q (Returned x) (q\<lparr>rpc := RDone x\<rparr>)"

definition fresh_slot :: Slot where
  "fresh_slot = \<lparr>sl_seq = 0, sl_total = 0, sl_success = 0, sl_failed = 0\<rparr>"

definition fresh_seqlock :: seqlock where
  "fresh_seqlock = \<lparr>slot = fresh_slot, wpc = WIdle, rpc = RStart\<rparr>"

text \<open>The triples stored so far, and the number of changes of the sequence number.\<close>

fun stored_triples :: "seq_event list \<Rightarrow> triple list" where
  "stored_triples [] = [(0, 0, 0)]"
| "stored_triples (Wrote x # es) = x # stored_triples es"
| "stored_triples (_ # es) = stored_triples es"

fun ticks :: "seq_event list \<Rightarrow> nat" where
  "ticks [] = 0"
| "ticks (Wrote _ # es) = Suc (ticks es)"
| "ticks (Closed_write # es) = Suc (ticks es)"
| "ticks (_ # es) = ticks es"

lemma ticks_append [simp]: "ticks (es @ fs) = ticks es + ticks fs"
  by (induction es rule: ticks.induct) simp_all

lemma set_stored_append [simp]: "set (stored_triples (es @ fs)) = set (stored_triples es) \<union> set (stored_triples fs)"
  by (induction es rule: stored_triples.induct) (auto, (induction fs rule: stored_triples.induct; simp)+)

lemma ticks_length: "ticks es \<le> length es"
  by (induction es rule: ticks.induct) simp_all

section \<open>Reads are consistent\<close>

definition contents :: "Slot \<Rightarrow> triple" where
  "contents sl = (sl_total sl, sl_success sl, sl_failed sl)"

fun writing :: "writer_pc \<Rightarrow> triple set" where
  "writing WIdle = {}"
| "writing (WTotal x) = {x}" | "writing (WSuccess x) = {x}" | "writing (WFailed x) = {x}" | "writing (WClose x) = {x}"

text \<open>The writer: a slot at rest holds a stored triple, and an odd number of ticks means a write is under way.\<close>

fun writer_ok :: "seq_event list \<Rightarrow> Slot \<Rightarrow> writer_pc \<Rightarrow> bool" where
  "writer_ok es sl WIdle \<longleftrightarrow> even (ticks es) \<and> contents sl \<in> set (stored_triples es)"
| "writer_ok es sl (WTotal x) \<longleftrightarrow> odd (ticks es) \<and> x \<in> set (stored_triples es)"
| "writer_ok es sl (WSuccess x) \<longleftrightarrow> odd (ticks es) \<and> x \<in> set (stored_triples es) \<and> sl_total sl = fst x"
| "writer_ok es sl (WFailed x) \<longleftrightarrow> odd (ticks es) \<and> x \<in> set (stored_triples es) \<and> sl_total sl = fst x
     \<and> sl_success sl = fst (snd x)"
| "writer_ok es sl (WClose x) \<longleftrightarrow> odd (ticks es) \<and> x \<in> set (stored_triples es) \<and> contents sl = x"

text \<open>
  The reader: with \<open>n\<close> ticks when it started, it has read from the present contents as long as \<open>n\<close> is
  even and no tick came since.
\<close>

definition seen :: "seq_event list \<Rightarrow> 64 word \<Rightarrow> (nat \<Rightarrow> bool) \<Rightarrow> bool" where
  "seen es s1 P \<longleftrightarrow> (\<exists>n \<le> ticks es. s1 = of_nat n \<and> P n)"

fun reader_ok :: "seq_event list \<Rightarrow> Slot \<Rightarrow> reader_pc \<Rightarrow> bool" where
  "reader_ok es sl RStart \<longleftrightarrow> True"
| "reader_ok es sl (RTotal s1) \<longleftrightarrow> seen es s1 (\<lambda>n. True)"
| "reader_ok es sl (RSuccess s1 t) \<longleftrightarrow> seen es s1 (\<lambda>n. even n \<longrightarrow> n = ticks es \<longrightarrow> t = sl_total sl)"
| "reader_ok es sl (RFailed s1 t s) \<longleftrightarrow>
     seen es s1 (\<lambda>n. even n \<longrightarrow> n = ticks es \<longrightarrow> t = sl_total sl \<and> s = sl_success sl)"
| "reader_ok es sl (RCheck s1 x) \<longleftrightarrow> seen es s1 (\<lambda>n. even n \<longrightarrow> n = ticks es \<longrightarrow> x = contents sl)"
| "reader_ok es sl (RDone x) \<longleftrightarrow> True"

definition inv_seq :: "seq_event list \<Rightarrow> seqlock \<Rightarrow> bool" where
  "inv_seq es q \<longleftrightarrow> (ticks es < 2 ^ 64 \<longrightarrow>
     sl_seq (slot q) = of_nat (ticks es) \<and> writer_ok es (slot q) (wpc q) \<and> reader_ok es (slot q) (rpc q)
     \<and> (\<forall>x. Returned x \<in> set es \<longrightarrow> x \<in> set (stored_triples es)))"

lemma odd_of_nat_word: "odd (of_nat n :: 64 word) \<longleftrightarrow> odd n"
  by transfer (simp add: even_take_bit_eq)

lemma of_nat_word_inject: "m < 2 ^ 64 \<Longrightarrow> n < 2 ^ 64 \<Longrightarrow> (of_nat m :: 64 word) = of_nat n \<Longrightarrow> m = n"
  by (simp add: word_of_nat_eq_iff take_bit_nat_eq_self)

lemma writer_odd: "writer_ok es sl w \<Longrightarrow> even (ticks es) \<Longrightarrow> w = WIdle"
  by (cases w) auto

text \<open>A write leaves what a reader has seen out of date, or is still under way.\<close>

lemma seen_mono:
  assumes "seen es s1 P" "ticks es \<le> ticks fs" "\<And>n. n \<le> ticks es \<Longrightarrow> P n \<Longrightarrow> Q n"
  shows "seen fs s1 Q"
proof -
  obtain n where "n \<le> ticks es" "s1 = of_nat n" "P n" using assms(1) by (auto simp: seen_def)
  then show ?thesis unfolding seen_def using assms(2,3) by (intro exI [of _ n]) auto
qed

lemma reader_stale:
  assumes "reader_ok es sl r" "ticks fs = ticks es \<and> odd (ticks es) \<or> ticks es < ticks fs"
  shows "reader_ok fs sl' r"
  using assms by (cases r) (auto elim!: seen_mono)

lemma reader_same:
  assumes "reader_ok es sl r" "ticks fs = ticks es"
  shows "reader_ok fs sl r"
  using assms by (cases r) (auto simp: seen_def)

lemma writer_same:
  assumes "writer_ok es sl w" "ticks fs = ticks es" "set (stored_triples es) \<subseteq> set (stored_triples fs)"
  shows "writer_ok fs sl w"
  using assms by (cases w) auto

lemma seq_invariant:
  assumes "inv_seq es q" "seq_step q e q'"
  shows "inv_seq (es @ [e]) q'"
  using assms(2,1)
proof (induction rule: seq_step.induct)
  case (w_open q x)
  then show ?case
    by (auto simp: inv_seq_def elim: reader_stale)
next
  case (w_total q t s f)
  then show ?case
    by (auto simp: inv_seq_def elim: reader_stale)
next
  case (w_success q t s f)
  then show ?case
    by (auto simp: inv_seq_def elim: reader_stale)
next
  case (w_failed q t s f)
  then show ?case
    by (auto simp: inv_seq_def contents_def elim: reader_stale)
next
  case (w_close q x)
  then show ?case
    by (auto simp: inv_seq_def contents_def elim: reader_stale)
next
  case (r_seq q)
  then show ?case by (auto simp: inv_seq_def seen_def elim: writer_same)
next
  case (r_total q s1)
  then show ?case by (auto simp: inv_seq_def seen_def elim: writer_same)
next
  case (r_success q s1 t)
  then show ?case by (auto simp: inv_seq_def seen_def elim: writer_same)
next
  case (r_failed q s1 t s)
  then show ?case by (auto simp: inv_seq_def seen_def contents_def elim: writer_same)
next
  case (r_again q s1 x)
  then show ?case by (auto simp: inv_seq_def elim: writer_same)
next
  case (r_done q s1 x)
  have "x \<in> set (stored_triples es)" if "ticks es < 2 ^ 64"
  proof -
    have q: "sl_seq (slot q) = of_nat (ticks es)" "writer_ok es (slot q) (wpc q)"
      "reader_ok es (slot q) (RCheck s1 x)"
      using r_done that by (auto simp: inv_seq_def)
    then obtain n where n: "n \<le> ticks es" "s1 = of_nat n" "even n \<longrightarrow> n = ticks es \<longrightarrow> x = contents (slot q)"
      by (auto simp: seen_def)
    have "n = ticks es" "even n"
      using r_done(2) q(1) n(1,2) that of_nat_word_inject [of n "ticks es"] by (auto simp: odd_of_nat_word)
    then show ?thesis using n(3) q(2) writer_odd [OF q(2)] by auto
  qed
  then show ?case using r_done by (auto simp: inv_seq_def elim: writer_same)
qed

interpretation seqlock: history_invariant fresh_seqlock seq_step inv_seq
  by unfold_locales
    (simp add: inv_seq_def fresh_seqlock_def fresh_slot_def contents_def, rule seq_invariant)

text \<open>
  C9. A reader of a slot never sees a torn triple: in every interleaving of one writer and a reader,
  with fewer than \<open>2 ^ 64\<close> steps, each triple that a read returns was stored by one update, or is the
  initial one.
\<close>

theorem slot_read_consistent:
  assumes "run seq_step fresh_seqlock es q" "Returned x \<in> set es" "length es < 2 ^ 64"
  shows "x \<in> set (stored_triples es)"
  using seqlock.inv_run [OF assms(1)] assms(2,3) ticks_length [of es]
  by (cases x) (auto simp: inv_seq_def)

definition demo_reads :: "seq_event list" where
  "demo_reads =
     [Wrote (3, 2, 1), Stored, Read_step, Stored, Stored, Closed_write, Read_step, Read_step, Read_step, Read_again,
      Read_step, Read_step, Read_step, Read_step, Returned (3, 2, 1)]"

text \<open>A read that overlaps a write starts again.\<close>

lemma demo_reads_run: "\<exists>q. run seq_step fresh_seqlock demo_reads q"
proof -
  let ?q1 = "fresh_seqlock\<lparr>slot := fresh_slot\<lparr>sl_seq := 1\<rparr>, wpc := WTotal (3, 2, 1)\<rparr>"
  let ?q2 = "?q1\<lparr>slot := (slot ?q1)\<lparr>sl_total := 3\<rparr>, wpc := WSuccess (3, 2, 1)\<rparr>"
  let ?q3 = "?q2\<lparr>rpc := RTotal 1\<rparr>"
  let ?q4 = "?q3\<lparr>slot := (slot ?q3)\<lparr>sl_success := 2\<rparr>, wpc := WFailed (3, 2, 1)\<rparr>"
  let ?q5 = "?q4\<lparr>slot := (slot ?q4)\<lparr>sl_failed := 1\<rparr>, wpc := WClose (3, 2, 1)\<rparr>"
  let ?q6 = "?q5\<lparr>slot := (slot ?q5)\<lparr>sl_seq := 2\<rparr>, wpc := WIdle\<rparr>"
  let ?done = "\<lambda>r. ?q6\<lparr>rpc := r\<rparr>"
  note d = fresh_seqlock_def fresh_slot_def
  have "seq_step fresh_seqlock (Wrote (3, 2, 1)) ?q1" using w_open [of fresh_seqlock] by (simp add: d)
  moreover have "seq_step ?q1 Stored ?q2" by (rule w_total) simp
  moreover have "seq_step ?q2 Read_step ?q3" using r_seq [of ?q2] by (simp add: d)
  moreover have "seq_step ?q3 Stored ?q4" using w_success [of ?q3] by simp
  moreover have "seq_step ?q4 Stored ?q5" using w_failed [of ?q4] by simp
  moreover have "seq_step ?q5 Closed_write ?q6" using w_close [of ?q5] by simp
  moreover have "seq_step ?q6 Read_step (?done (RSuccess 1 3))" using r_total [of ?q6] by simp
  moreover have "seq_step (?done (RSuccess 1 3)) Read_step (?done (RFailed 1 3 2))"
    using r_success [of "?done (RSuccess 1 3)"] by simp
  moreover have "seq_step (?done (RFailed 1 3 2)) Read_step (?done (RCheck 1 (3, 2, 1)))"
    using r_failed [of "?done (RFailed 1 3 2)"] by simp
  moreover have "seq_step (?done (RCheck 1 (3, 2, 1))) Read_again (?done RStart)"
    using r_again [of "?done (RCheck 1 (3, 2, 1))"] by simp
  moreover have "seq_step (?done RStart) Read_step (?done (RTotal 2))" using r_seq [of "?done RStart"] by simp
  moreover have "seq_step (?done (RTotal 2)) Read_step (?done (RSuccess 2 3))"
    using r_total [of "?done (RTotal 2)"] by simp
  moreover have "seq_step (?done (RSuccess 2 3)) Read_step (?done (RFailed 2 3 2))"
    using r_success [of "?done (RSuccess 2 3)"] by simp
  moreover have "seq_step (?done (RFailed 2 3 2)) Read_step (?done (RCheck 2 (3, 2, 1)))"
    using r_failed [of "?done (RFailed 2 3 2)"] by simp
  moreover have "seq_step (?done (RCheck 2 (3, 2, 1))) (Returned (3, 2, 1)) (?done (RDone (3, 2, 1)))"
    using r_done [of "?done (RCheck 2 (3, 2, 1))"] by simp
  ultimately have "run seq_step fresh_seqlock demo_reads (?done (RDone (3, 2, 1)))"
    unfolding demo_reads_def by (blast intro: run_Cons run_nil)
  then show ?thesis by blast
qed

theorem slot_read_consistent_witness: "(3, 2, 1) \<in> set (stored_triples demo_reads)"
proof -
  obtain q where q: "run seq_step fresh_seqlock demo_reads q" using demo_reads_run by blast
  show ?thesis by (rule slot_read_consistent [OF q]) (simp_all add: demo_reads_def)
qed

section \<open>The registry of slots\<close>

text \<open>\<open>update\<close> and \<open>read\<close> of a slot that no other thread is writing.\<close>

definition update_slot :: "triple \<Rightarrow> Slot \<Rightarrow> Slot" where
  "update_slot x sl = \<lparr>sl_seq = sl_seq sl + 2, sl_total = fst x, sl_success = fst (snd x), sl_failed = snd (snd x)\<rparr>"

record Registry =
  slots :: "Slot list"
  active_mask :: "64 word list"
  historical :: Slot

definition kMaxWorkers :: nat where "kMaxWorkers = 128"

definition new_Registry :: Registry where
  "new_Registry = \<lparr>slots = replicate kMaxWorkers fresh_slot, active_mask = [0, 0], historical = fresh_slot\<rparr>"

text \<open>
  The search for a free bit in group \<open>m\<close>, for the bits still to try; \<open>msk\<close> is the local copy of the
  mask, which \<open>acquireSlot\<close> loads from the first group in both rounds.
\<close>

fun claim_bit :: "nat \<Rightarrow> 64 word \<Rightarrow> nat list \<Rightarrow> Registry \<Rightarrow> nat option \<times> Registry" where
  "claim_bit m msk [] r = (None, r)"
| "claim_bit m msk (i # bits) r =
     (if \<not> bit msk i then
        let old = active_mask r ! m;
            r = r\<lparr>active_mask := (active_mask r)[m := old OR push_bit i 1]\<rparr>
        in if \<not> bit old i
           then (Some (m * 64 + i),
                 r\<lparr>slots := (slots r)[m * 64 + i := update_slot (0, 0, 0) (slots r ! (m * 64 + i))]\<rparr>)
           else claim_bit m (active_mask r ! m) bits r
      else claim_bit m msk bits r)"

definition acquireSlot :: "Registry \<Rightarrow> nat option \<times> Registry" where
  "acquireSlot r =
     (case claim_bit 0 (active_mask r ! 0) [0..<64] r of
        (Some n, r) \<Rightarrow> (Some n, r)
      | (None, r) \<Rightarrow> claim_bit 1 (active_mask r ! 0) [0..<64] r)"

definition tadd :: "triple \<Rightarrow> triple \<Rightarrow> triple" where
  "tadd x y = (fst x + fst y, fst (snd x) + fst (snd y), snd (snd x) + snd (snd y))"

definition releaseSlot :: "nat \<Rightarrow> Registry \<Rightarrow> Registry" where
  "releaseSlot n r =
     (if kMaxWorkers \<le> n then r
      else
        let x = contents (slots r ! n);
            r = r\<lparr>slots := (slots r)[n := update_slot (0, 0, 0) (slots r ! n)]\<rparr>;
            r = r\<lparr>historical := update_slot (tadd (contents (historical r)) x) (historical r)\<rparr>
        in r\<lparr>active_mask := (active_mask r)
               [n div 64 := (active_mask r ! (n div 64)) AND NOT (push_bit (n mod 64) 1)]\<rparr>)"

text \<open>\<open>__builtin_ctzll\<close>, and the loop of \<open>aggregate\<close> over the set bits of a mask.\<close>

definition ctz :: "64 word \<Rightarrow> nat" where
  "ctz w = length (takeWhile (\<lambda>i. \<not> bit w i) [0..<64])"

lemma finite_bits [simp]: "finite {i. bit (w :: 64 word) i}"
  by (rule finite_subset [of _ "{..<64}"]) (auto dest: bit_imp_le_length)

lemma bit64_less: "bit (w :: 64 word) i \<Longrightarrow> bit w i \<and> i < 64"
  by (auto dest: bit_imp_le_length)

lemma bit_ctz: "w \<noteq> 0 \<Longrightarrow> bit w (ctz w)"
proof -
  assume "w \<noteq> 0"
  then obtain j where j: "bit w j" by (auto simp: bit_eq_iff)
  then have "takeWhile (\<lambda>i. \<not> bit w i) [0..<64] \<noteq> [0..<64]"
    using bit_imp_le_length [OF j] by (auto simp: takeWhile_eq_all_conv intro!: bexI [of _ j])
  then have *: "ctz w < length [0..<64]"
    unfolding ctz_def
    by (metis takeWhile_eq_take take_all length_takeWhile_le le_neq_implies_less order_refl)
  then show ?thesis
    using nth_length_takeWhile [of "\<lambda>i. \<not> bit w i" "[0..<64]"] by (simp add: ctz_def)
qed

lemma bit_clear: "bit (w AND NOT (push_bit i 1) :: 64 word) j \<longleftrightarrow> bit w j \<and> j \<noteq> i"
  by (auto simp: bit_simps dest: bit_imp_le_length)

lemma bit_set: "i < 64 \<Longrightarrow> bit (w OR push_bit i 1 :: 64 word) j \<longleftrightarrow> bit w j \<or> j = i"
  by (auto simp: bit_simps dest: bit_imp_le_length)

lemmas bit_change = bit_clear bit_set bit_clear [simplified push_bit_of_1] bit_set [simplified push_bit_of_1]

function agg_loop :: "nat \<Rightarrow> 64 word \<Rightarrow> Registry \<Rightarrow> triple \<Rightarrow> triple" where
  "agg_loop m msk r acc =
     (if msk = 0 then acc
      else let i = ctz msk
           in agg_loop m (msk AND NOT (push_bit i 1)) r (tadd acc (contents (slots r ! (m * 64 + i)))))"
  by pat_completeness auto
termination
proof (relation "measure (\<lambda>(m, msk, r, acc). card {i. bit msk i})", simp)
  fix m msk r acc i
  assume "msk \<noteq> 0" "i = ctz msk"
  then show "((m, msk AND NOT (push_bit i 1), r, tadd acc (contents (slots r ! (m * 64 + i)))), m, msk, r, acc)
    \<in> measure (\<lambda>(m, msk, r, acc). card {i. bit msk i})"
    using bit_ctz [of msk] by (auto simp: bit_change intro!: psubset_card_mono)
qed

declare agg_loop.simps [simp del]

definition aggregate :: "Registry \<Rightarrow> triple" where
  "aggregate r = agg_loop 1 (active_mask r ! 1) r (agg_loop 0 (active_mask r ! 0) r (contents (historical r)))"

section \<open>The sums the registry reports\<close>

definition active :: "Registry \<Rightarrow> nat \<Rightarrow> bool" where
  "active r n \<longleftrightarrow> n < kMaxWorkers \<and> bit (active_mask r ! (n div 64)) (n mod 64)"

text \<open>The component-wise sum of a set of slots.\<close>

definition totals :: "Slot list \<Rightarrow> nat set \<Rightarrow> triple" where
  "totals ss A = (\<Sum>n \<in> A. sl_total (ss ! n), \<Sum>n \<in> A. sl_success (ss ! n), \<Sum>n \<in> A. sl_failed (ss ! n))"

definition registry_wf :: "Registry \<Rightarrow> bool" where
  "registry_wf r \<longleftrightarrow> length (slots r) = kMaxWorkers \<and> length (active_mask r) = 2"

lemma tadd_ac: "tadd (tadd x y) z = tadd x (tadd y z)" "tadd x y = tadd y x" "tadd x (tadd y z) = tadd y (tadd x z)"
  by (simp_all add: tadd_def)

lemma tadd_zero [simp]: "tadd x (0, 0, 0) = x" "tadd (0, 0, 0) x = x"
  by (simp_all add: tadd_def)

lemma contents_update [simp]: "contents (update_slot x sl) = x"
  by (simp add: contents_def update_slot_def)

lemma totals_empty [simp]: "totals ss {} = (0, 0, 0)"
  by (simp add: totals_def)

lemma totals_remove: "finite A \<Longrightarrow> n \<in> A \<Longrightarrow> totals ss A = tadd (contents (ss ! n)) (totals ss (A - {n}))"
  by (simp add: totals_def tadd_def contents_def sum.remove [of A n])

lemma totals_Un: "finite A \<Longrightarrow> finite B \<Longrightarrow> A \<inter> B = {} \<Longrightarrow> totals ss (A \<union> B) = tadd (totals ss A) (totals ss B)"
  by (simp add: totals_def tadd_def sum.union_disjoint)

lemma totals_cong: "(\<And>n. n \<in> A \<Longrightarrow> ss ! n = ts ! n) \<Longrightarrow> totals ss A = totals ts A"
  by (simp add: totals_def)

lemma agg_loop_totals:
  "agg_loop m msk r acc = tadd acc (totals (slots r) ((\<lambda>i. m * 64 + i) ` {i. bit msk i}))"
proof (induction m msk r acc rule: agg_loop.induct)
  case (1 m msk r acc)
  show ?case
  proof (cases "msk = 0")
    case False
    let ?i = "ctz msk" and ?img = "\<lambda>A. (\<lambda>i. m * 64 + i) ` A"
    have "?img {i. bit (msk AND NOT (push_bit ?i 1)) i} = ?img {i. bit msk i} - {m * 64 + ?i}"
      by (auto simp: bit_change)
    moreover have "m * 64 + ?i \<in> ?img {i. bit msk i}" using bit_ctz [OF False] by auto
    ultimately show ?thesis
      using 1 [OF False refl] False
      by (subst agg_loop.simps) (simp add: Let_def tadd_ac totals_remove [of "?img {i. bit msk i}" "m * 64 + ?i"])
  qed (simp add: agg_loop.simps)
qed

lemma active_slots:
  "{n. active r n} = (\<lambda>i. i) ` {i. bit (active_mask r ! 0) i} \<union> (\<lambda>i. 64 + i) ` {i. bit (active_mask r ! 1) i}"
  (is "_ = ?L \<union> ?R")
proof (intro equalityI subsetI)
  fix n assume "n \<in> {n. active r n}"
  then have a: "n < 128" "bit (active_mask r ! (n div 64)) (n mod 64)" by (auto simp: active_def kMaxWorkers_def)
  show "n \<in> ?L \<union> ?R"
  proof (cases "n < 64")
    case False
    then have "n div 64 = 1" using a(1) by simp
    then have "n = 64 + n mod 64" using div_mult_mod_eq [of n 64] by simp
    then show ?thesis using a(2) \<open>n div 64 = 1\<close> by (auto intro!: image_eqI [of _ _ "n mod 64"])
  qed (use a in auto)
next
  fix n assume "n \<in> ?L \<union> ?R"
  then consider "bit (active_mask r ! 0) n" "n < 64"
    | i where "n = 64 + i" "bit (active_mask r ! 1) i" "i < 64"
    by (auto dest: bit64_less)
  then show "n \<in> {n. active r n}" by cases (simp_all add: active_def kMaxWorkers_def div_add_self1)
qed

lemma finite_active [simp]: "finite {n. active r n}"
  by (rule finite_subset [of _ "{..<kMaxWorkers}"]) (auto simp: active_def)

lemma aggregate_eq: "aggregate r = tadd (contents (historical r)) (totals (slots r) {n. active r n})"
proof -
  have "(\<lambda>i. i) ` {i. bit (active_mask r ! 0) i} \<inter> (\<lambda>i. 64 + i) ` {i. bit (active_mask r ! 1) i} = {}"
    by (auto dest: bit_imp_le_length)
  then show ?thesis
    by (simp add: aggregate_def agg_loop_totals active_slots totals_Un tadd_ac)
qed

text \<open>
  The loop over the set bits of the two masks reports the component-wise sum, modulo \<open>2 ^ 64\<close>, of
  the history and of exactly the slots in use, each counted once.
\<close>

theorem aggregate_sums_active:
  "aggregate r = tadd (contents (historical r)) (totals (slots r) {n. active r n})"
  by (rule aggregate_eq)

section \<open>Giving slots out and taking them back\<close>

text \<open>A change of the bit of one slot is a change of that slot alone.\<close>

lemma active_change:
  assumes "registry_wf r" "n < kMaxWorkers" "active_mask r' = (active_mask r)[n div 64 := w]"
    "\<And>j. j \<noteq> n mod 64 \<Longrightarrow> bit w j = bit (active_mask r ! (n div 64)) j"
  shows "active r' k \<longleftrightarrow> (if k = n then bit w (n mod 64) else active r k)"
proof (cases "k div 64 = n div 64")
  case True
  have "n div 64 < 2" using assms(2) by (simp add: kMaxWorkers_def)
  moreover have "k mod 64 = n mod 64 \<longleftrightarrow> k = n" using True by (metis div_mult_mod_eq)
  ultimately show ?thesis
    using assms True by (cases "k = n") (simp_all add: active_def registry_wf_def)
next
  case False
  then have "k \<noteq> n" by auto
  then show ?thesis using assms False by (simp add: active_def)
qed

lemma active_clear:
  assumes "registry_wf r" "n < kMaxWorkers"
    "active_mask r' = (active_mask r)[n div 64 := (active_mask r ! (n div 64)) AND NOT (push_bit (n mod 64) 1)]"
  shows "{k. active r' k} = {k. active r k} - {n}"
  using active_change [OF assms] by (auto simp: bit_change split: if_splits)

lemma active_mark:
  assumes "registry_wf r" "n < kMaxWorkers"
    "active_mask r' = (active_mask r)[n div 64 := (active_mask r ! (n div 64)) OR push_bit (n mod 64) 1]"
  shows "{k. active r' k} = insert n {k. active r k}"
  using active_change [OF assms] by (auto simp: bit_change split: if_splits)

text \<open>
  C33. A worker that leaves takes nothing with it: releasing a slot in use frees that slot alone, clears
  it, and the three totals the registry reports stay as they were, since what the slot had counted has
  moved to the history.
\<close>

theorem releaseSlot_keeps_totals:
  assumes "registry_wf r" "active r n"
  shows "aggregate (releaseSlot n r) = aggregate r
    \<and> {k. active (releaseSlot n r) k} = {k. active r k} - {n}
    \<and> contents (slots (releaseSlot n r) ! n) = (0, 0, 0)
    \<and> registry_wf (releaseSlot n r)"
proof -
  have n: "n < kMaxWorkers" using assms(2) by (simp add: active_def)
  then have a: "{k. active (releaseSlot n r) k} = {k. active r k} - {n}"
    by (intro active_clear [OF assms(1)]) (simp_all add: releaseSlot_def Let_def)
  have "totals (slots (releaseSlot n r)) ({k. active r k} - {n}) = totals (slots r) ({k. active r k} - {n})"
    using n by (intro totals_cong) (simp add: releaseSlot_def Let_def)
  moreover have "contents (historical (releaseSlot n r)) = tadd (contents (historical r)) (contents (slots r ! n))"
    using n by (simp add: releaseSlot_def Let_def)
  ultimately have "aggregate (releaseSlot n r) = aggregate r"
    using assms(2) a by (simp add: aggregate_eq totals_remove [of "{k. active r k}" n] tadd_ac)
  then show ?thesis
    using a n assms(1) by (simp add: releaseSlot_def Let_def registry_wf_def)
qed

definition two_workers :: Registry where
  "two_workers = new_Registry\<lparr>active_mask := [3, 0],
     slots := (slots new_Registry)[0 := update_slot (5, 4, 1) fresh_slot, 1 := update_slot (2, 2, 0) fresh_slot]\<rparr>"

theorem releaseSlot_keeps_totals_witness:
  "registry_wf two_workers \<and> active two_workers 1
   \<and> aggregate (releaseSlot 1 two_workers) = aggregate two_workers
   \<and> contents (historical (releaseSlot 1 two_workers)) = (2, 2, 0)"
proof -
  have wf: "registry_wf two_workers" by (simp add: registry_wf_def two_workers_def new_Registry_def)
  have act: "active two_workers 1"
    by (simp add: active_def two_workers_def kMaxWorkers_def)
  have "contents (historical (releaseSlot 1 two_workers)) = (2, 2, 0)"
    by (simp add: releaseSlot_def Let_def two_workers_def new_Registry_def kMaxWorkers_def fresh_slot_def
        contents_def [of "fresh_slot"] update_slot_def tadd_def contents_def)
  then show ?thesis using wf act releaseSlot_keeps_totals [OF wf act] by blast
qed

text \<open>Run alone, the search claims the first free bit of the mask it looks at, if that bit is free in its group.\<close>

lemma claim_bit_none: "(\<And>i. i \<in> set bits \<Longrightarrow> bit msk i) \<Longrightarrow> claim_bit m msk bits r = (None, r)"
  by (induction bits) simp_all

lemma acquireSlot_none:
  assumes "\<forall>i < 64. bit (active_mask r ! 0) i"
  shows "acquireSlot r = (None, r)"
proof -
  have "claim_bit m (active_mask r ! 0) [0..<64] r = (None, r)" for m
    by (rule claim_bit_none) (use assms in auto)
  then show ?thesis unfolding acquireSlot_def by simp
qed

lemma claim_bit_some:
  assumes "\<not> bit (active_mask r ! m) i" "i \<in> set bits"
  shows "\<exists>j. j \<in> set bits \<and> \<not> bit (active_mask r ! m) j
    \<and> claim_bit m (active_mask r ! m) bits r =
        (Some (m * 64 + j),
         r\<lparr>active_mask := (active_mask r)[m := (active_mask r ! m) OR push_bit j 1],
           slots := (slots r)[m * 64 + j := update_slot (0, 0, 0) (slots r ! (m * 64 + j))]\<rparr>)"
  using assms(2)
proof (induction bits)
  case (Cons b bits)
  show ?case
  proof (cases "bit (active_mask r ! m) b")
    case True
    then have "i \<in> set bits" using Cons.prems assms(1) by auto
    from Cons.IH [OF this] True show ?thesis by auto
  next
    case False
    then show ?thesis by (intro exI [of _ b]) (simp add: Let_def)
  qed
qed simp

text \<open>
  C34. Acquiring a slot, run alone. While one of the first 64 slots is free, it gives out one of them
  that nobody holds, marks it alone as in use, clears it, and leaves the reported totals as they were
  whatever the slot last counted. Once those 64 are in use it gives out none, even when the other 64
  of the registry's 128 slots are free: the second round looks at the first mask again.
\<close>

theorem acquireSlot_takes_free:
  assumes "registry_wf r"
  shows "case fst (acquireSlot r) of
      None \<Rightarrow> {0..<64} \<subseteq> {k. active r k} \<and> snd (acquireSlot r) = r
    | Some n \<Rightarrow> n < 64 \<and> \<not> active r n \<and> {k. active (snd (acquireSlot r)) k} = insert n {k. active r k}
        \<and> contents (slots (snd (acquireSlot r)) ! n) = (0, 0, 0)
        \<and> aggregate (snd (acquireSlot r)) = aggregate r \<and> registry_wf (snd (acquireSlot r))"
proof (cases "\<forall>i < 64. bit (active_mask r ! 0) i")
  case True
  then show ?thesis using acquireSlot_none [OF True] by (auto simp: active_def kMaxWorkers_def)
next
  case False
  then obtain i where "\<not> bit (active_mask r ! 0) i" "i \<in> set [0..<64]" by auto
  from claim_bit_some [OF this] obtain j where j: "j < 64" "\<not> bit (active_mask r ! 0) j"
    "acquireSlot r = (Some j, r\<lparr>active_mask := (active_mask r)[0 := (active_mask r ! 0) OR push_bit j 1],
       slots := (slots r)[j := update_slot (0, 0, 0) (slots r ! j)]\<rparr>)" (is "_ = (_, ?r)")
    by (auto simp: acquireSlot_def)
  have a: "\<not> active r j" "{k. active ?r k} = insert j {k. active r k}"
    using j(1,2) by (simp add: active_def, intro active_mark [OF assms]) (simp_all add: kMaxWorkers_def)
  have c: "contents (slots ?r ! j) = (0, 0, 0)" using assms j(1) by (simp add: registry_wf_def kMaxWorkers_def)
  have "totals (slots ?r) {k. active r k} = totals (slots r) {k. active r k}"
    using a(1) by (intro totals_cong) (auto intro: nth_list_update_neq)
  then have "aggregate ?r = aggregate r"
    using a c by (simp add: aggregate_eq totals_remove [of "insert j {k. active r k}" j])
  then show ?thesis using a c j(1) assms unfolding j(3) by (simp add: registry_wf_def)
qed

definition full_first_group :: Registry where
  "full_first_group = new_Registry\<lparr>active_mask := [- 1, 0]\<rparr>"

theorem acquireSlot_takes_free_witness:
  "registry_wf full_first_group \<and> acquireSlot full_first_group = (None, full_first_group)
   \<and> \<not> active full_first_group 64 \<and> registry_wf new_Registry \<and> fst (acquireSlot new_Registry) \<noteq> None"
proof -
  have wf: "registry_wf full_first_group" "registry_wf new_Registry"
    by (simp_all add: registry_wf_def full_first_group_def new_Registry_def)
  have 1: "acquireSlot full_first_group = (None, full_first_group)"
    by (rule acquireSlot_none) (simp add: full_first_group_def)
  have "\<not> {0..<64} \<subseteq> {k. active new_Registry k}"
    by (auto simp: active_def new_Registry_def subset_eq intro!: exI [of _ 0])
  then have "fst (acquireSlot new_Registry) \<noteq> None"
    using acquireSlot_takes_free [OF wf(2)] by (metis option.case(1))
  then show ?thesis using wf 1 by (simp add: active_def full_first_group_def)
qed

end
