(* ===== verification/Metrics.thy ===== *)
theory Metrics
  imports Health_Checker Metrics_Slots
begin

text \<open>
  The metrics of the server: the snapshot of a provider (\<open>include/IMetricsProvider.h\<close>), the four
  providers (\<open>src/metrics/*MetricsProvider.cpp\<close>) and \<open>MetricsCollector\<close>
  (\<open>src/metrics/MetricsCollector.cpp\<close>). The objects a provider points at are read when it refreshes,
  so they are an argument of \<open>refresh\<close>, the record \<open>live\<close>, with the measured round trip; a
  provider keeps whether its pointer is set. \<open>refresh\<close> is declared \<open>noexcept\<close>: an exception that
  reaches its boundary ends the process and is the left value of its result.
\<close>

section \<open>Snapshots\<close>

datatype provider_kind = CacheMetrics bool | DatabaseMetrics bool | SchedulerMetricsP bool | ServerMetrics

record provider =
  pv_kind :: provider_kind
  metrics_cache :: "json option"

definition new_provider :: "provider_kind \<Rightarrow> provider" where
  "new_provider k = \<lparr>pv_kind = k, metrics_cache = Some (JObj [])\<rparr>"

fun metricsName :: "provider_kind \<Rightarrow> string" where
  "metricsName (CacheMetrics _) = ''cache_metrics''"
| "metricsName (DatabaseMetrics _) = ''database_metrics''"
| "metricsName (SchedulerMetricsP _) = ''scheduler_metrics''"
| "metricsName ServerMetrics = ''server_metrics''"

definition exportMetrics :: "provider \<Rightarrow> json" where
  "exportMetrics p = (case metrics_cache p of None \<Rightarrow> JObj [] | Some j \<Rightarrow> j)"

definition updateSnapshot :: "json \<Rightarrow> provider \<Rightarrow> provider" where
  "updateSnapshot new_json p = p\<lparr>metrics_cache := Some new_json\<rparr>"

section \<open>The providers\<close>

record 'w live =
  lv_cache :: "'w CacheManager"
  lv_rtt_ms :: int
  lv_db :: DBManager
  lv_scheduler :: Scheduler
  lv_registry :: Registry

definition refresh_cache :: "'w live \<Rightarrow> bool \<Rightarrow> provider \<Rightarrow> ('w, provider) call" where
  "refresh_cache lv cache p =
     (if \<not> cache
      then ok (updateSnapshot (JObj [(''connected'', JBool False), (''status'', JStr ''not_initialized'')]) p)
      else bindE (ping (lv_cache lv)) (\<lambda>is_connected.
        ok (updateSnapshot
          (if is_connected
           then JObj [(''connected'', JBool True), (''last_check_ok'', JBool True),
                      (''latency_ms'', JInt (lv_rtt_ms lv)), (''status'', JStr ''connected'')]
           else JObj [(''connected'', JBool False), (''last_check_ok'', JBool False),
                      (''latency_ms'', JInt (- 1)), (''status'', JStr ''disconnected'')]) p)))"

definition refresh_database :: "'w live \<Rightarrow> bool \<Rightarrow> provider \<Rightarrow> provider" where
  "refresh_database lv db p =
     (if \<not> db then updateSnapshot (JObj [(''status'', JStr ''not_initialized'')]) p
      else
        let stats = getPoolStats (lv_db lv);
            status_str = (if ps_is_ok stats then ''connected''
                          else if 0 < ps_current stats then ''degraded'' else ''disconnected'')
        in updateSnapshot (JObj
             [(''is_healthy'', JBool (ps_is_ok stats)),
              (''pool'', JObj [(''active'', JInt (ps_active stats)), (''idle'', JInt (ps_idle stats)),
                               (''pool_size'', JInt (ps_current stats)), (''waiting'', JInt (ps_wait stats))]),
              (''pool_size'', JInt (ps_current stats)),
              (''status'', JStr status_str)]) p)"

definition refresh_scheduler :: "'w live \<Rightarrow> bool \<Rightarrow> provider \<Rightarrow> provider" where
  "refresh_scheduler lv scheduler p =
     (if \<not> scheduler
      then updateSnapshot (JObj [(''ready'', JBool False), (''status'', JStr ''initializing'')]) p
      else
        let m = getMetrics (lv_scheduler lv)
        in updateSnapshot (JObj
             [(''auth_failures'', JInt (uint (m_auth_failures m))),
              (''failed_play'', JInt (uint (m_total_play_req m - m_success_play m))),
              (''failed_pub'', JInt (uint (m_total_publish_req m - m_success_pub m))),
              (''success_play'', JInt (uint (m_success_play m))),
              (''success_pub'', JInt (uint (m_success_pub m))),
              (''tasks_cleaned'', JInt (uint (m_tasks_cleaned m))),
              (''timestamp_ms'', JInt (uint (m_last_update_ms m))),
              (''total_play_req'', JInt (uint (m_total_play_req m))),
              (''total_publish_req'', JInt (uint (m_total_publish_req m)))]) p)"

text \<open>
  The text of the server's counters is written into a buffer of \<open>kBufferSize\<close> bytes; what has been
  written so far is the argument, so its length is the position of the write pointer. A conversion
  that does not fit leaves the name behind.
\<close>

definition kBufferSize :: nat where "kBufferSize = 1024"

definition append_metric :: "string \<Rightarrow> 64 word \<Rightarrow> string \<Rightarrow> string" where
  "append_metric name value buf =
     (if kBufferSize \<le> length buf + length name + 22 then buf
      else
        let buf = buf @ name @ '' ''; digits = dec_of_nat (unat value)
        in if length buf + length digits \<le> kBufferSize - 1 then buf @ digits @ [CHR 0x0A] else buf)"

definition server_text :: "triple \<Rightarrow> string" where
  "server_text x =
     append_metric ''streamgate_requests_failed'' (snd (snd x))
       (append_metric ''streamgate_requests_success'' (fst (snd x))
         (append_metric ''streamgate_requests_total'' (fst x) ''''))"

definition refresh_server :: "'w live \<Rightarrow> provider \<Rightarrow> provider" where
  "refresh_server lv p = updateSnapshot (JStr (server_text (aggregate (lv_registry lv)))) p"

definition refresh :: "'w live \<Rightarrow> provider \<Rightarrow> ('w, provider) call" where
  "refresh lv p =
     (case pv_kind p of
        CacheMetrics b \<Rightarrow> refresh_cache lv b p
      | DatabaseMetrics b \<Rightarrow> ok (refresh_database lv b p)
      | SchedulerMetricsP b \<Rightarrow> ok (refresh_scheduler lv b p)
      | ServerMetrics \<Rightarrow> ok (refresh_server lv p))"

section \<open>The collector\<close>

record MetricsCollector =
  mc_providers :: "provider list"
  mc_worker :: bool

definition new_MetricsCollector :: MetricsCollector where
  "new_MetricsCollector = \<lparr>mc_providers = [], mc_worker = False\<rparr>"

text \<open>
  \<open>std::ranges::sort\<close> promises an ascending permutation and leaves the order of equals open: it is the
  argument \<open>sort\<close>.
\<close>

definition ranges_sort :: "('a \<Rightarrow> 'k::linorder) \<Rightarrow> ('a list \<Rightarrow> 'a list) \<Rightarrow> bool" where
  "ranges_sort key srt \<longleftrightarrow> (\<forall>xs. mset (srt xs) = mset xs \<and> sorted (map key (srt xs)))"

definition registerProvider ::
  "(provider list \<Rightarrow> provider list) \<Rightarrow> provider option \<Rightarrow> MetricsCollector \<Rightarrow> MetricsCollector" where
  "registerProvider srt prov c =
     (case prov of
        None \<Rightarrow> c
      | Some p \<Rightarrow> c\<lparr>mc_providers := srt (mc_providers c @ [p])\<rparr>)"

definition collectAll :: "string \<Rightarrow> MetricsCollector \<Rightarrow> json" where
  "collectAll now c =
     JObj [(''components'',
            JObj (foldl (\<lambda>ps p. obj_put (metricsName (pv_kind p)) (exportMetrics p) ps) [] (mc_providers c))),
           (''timestamp'', JStr now)]"

fun refresh_all :: "'w live \<Rightarrow> provider list \<Rightarrow> ('w, provider list) call" where
  "refresh_all lv [] = ok []"
| "refresh_all lv (p # ps) =
     bindE (refresh lv p) (\<lambda>p. bindE (refresh_all lv ps) (\<lambda>ps. ok (p # ps)))"

text \<open>
  The worker thread: one round for each element of the list, which holds what the round finds (the
  objects and the time), until a stop is requested. The result has the reports given to the exporter,
  in order.
\<close>

fun worker :: "('w live \<times> string) list \<Rightarrow> MetricsCollector \<Rightarrow> ('w, json list \<times> MetricsCollector) call" where
  "worker [] c = ok ([], c)"
| "worker ((lv, now) # rounds) c =
     bindE (refresh_all lv (mc_providers c)) (\<lambda>ps.
       let c = c\<lparr>mc_providers := ps\<rparr>; report = collectAll now c
       in bindE (worker rounds c) (\<lambda>(reports, c). ok (report # reports, c)))"

definition start_collector :: "MetricsCollector \<Rightarrow> MetricsCollector" where
  "start_collector c = (if mc_worker c then c else c\<lparr>mc_worker := True\<rparr>)"

definition stop_collector :: "MetricsCollector \<Rightarrow> MetricsCollector" where
  "stop_collector c = (if mc_worker c then c\<lparr>mc_worker := False\<rparr> else c)"

text \<open>
  \<open>MetricsRegistry::createAll\<close> (\<open>include/MetricsRegistry.h\<close>): the linker section is \<^term>\<open>None\<close> when its
  boundary symbols are missing, and else the list of its words: a null pointer, or a factory with the
  provider it makes, if any.
\<close>

definition createAll :: "provider option option list option \<Rightarrow> provider list" where
  "createAll linked =
     (case linked of
        None \<Rightarrow> []
      | Some entries \<Rightarrow> List.map_filter (\<lambda>func. case func of None \<Rightarrow> None | Some made \<Rightarrow> made) entries)"

text \<open>
  The start of the monitoring in \<open>main\<close>: the providers found in the linker section get their
  pointers, are registered, and the worker starts.
\<close>

definition inject :: "provider \<Rightarrow> provider" where
  "inject p =
     (case pv_kind p of
        SchedulerMetricsP _ \<Rightarrow> p\<lparr>pv_kind := SchedulerMetricsP True\<rparr>
      | CacheMetrics _ \<Rightarrow> p\<lparr>pv_kind := CacheMetrics True\<rparr>
      | DatabaseMetrics _ \<Rightarrow> p\<lparr>pv_kind := DatabaseMetrics True\<rparr>
      | ServerMetrics \<Rightarrow> p)"

definition start_monitoring ::
  "(provider list \<Rightarrow> provider list) \<Rightarrow> provider list \<Rightarrow> MetricsCollector \<Rightarrow> MetricsCollector" where
  "start_monitoring srt providers c =
     start_collector (foldl (\<lambda>c p. registerProvider srt (Some p) c) c (map inject providers))"

section \<open>The report\<close>

lemma dec_of_nat_length: "n < 10 ^ Suc k \<Longrightarrow> length (dec_of_nat n) \<le> Suc k"
proof (induction k arbitrary: n)
  case 0
  then show ?case by (simp add: dec_of_nat.simps [of n])
next
  case (Suc k)
  then have "n div 10 < 10 ^ Suc k" by (simp add: less_mult_imp_div_less)
  then show ?case using Suc.IH [of "n div 10"] by (simp add: dec_of_nat.simps [of n])
qed

lemma word64_digits: "length (dec_of_nat (unat (v :: 64 word))) \<le> 20"
proof -
  have "unat v < 2 ^ 64" using unsigned_less [of v] by simp
  also have "(2 ^ 64 :: nat) < 10 ^ Suc 19" by simp
  finally show ?thesis using dec_of_nat_length [of "unat v" 19] by simp
qed

lemma append_metric_fits:
  "length buf + length name + 22 < kBufferSize
   \<Longrightarrow> append_metric name v buf = buf @ name @ '' '' @ dec_of_nat (unat v) @ [CHR 0x0A]
     \<and> length (append_metric name v buf) \<le> length buf + length name + 22"
  using word64_digits [of v] by (simp add: append_metric_def Let_def kBufferSize_def)

text \<open>
  C35. The guards against a full buffer never drop a counter: whatever the three 64-bit counters are,
  the text has all three lines, name, blank, decimal value and line feed, within 144 of the
  1024 bytes.
\<close>

theorem server_text_complete:
  "server_text (t, s, f) =
     ''streamgate_requests_total '' @ dec_of_nat (unat t) @ [CHR 0x0A]
     @ ''streamgate_requests_success '' @ dec_of_nat (unat s) @ [CHR 0x0A]
     @ ''streamgate_requests_failed '' @ dec_of_nat (unat f) @ [CHR 0x0A]
   \<and> length (server_text (t, s, f)) \<le> 144 \<and> 144 < kBufferSize"
proof -
  let ?a = "append_metric ''streamgate_requests_total'' t ''''"
  let ?b = "append_metric ''streamgate_requests_success'' s ?a"
  have a: "?a = ''streamgate_requests_total '' @ dec_of_nat (unat t) @ [CHR 0x0A]" "length ?a \<le> 47"
    using append_metric_fits [of "''''" "''streamgate_requests_total''" t, unfolded kBufferSize_def] by auto
  have b: "?b = ?a @ ''streamgate_requests_success '' @ dec_of_nat (unat s) @ [CHR 0x0A]" "length ?b \<le> 96"
    using append_metric_fits [of ?a "''streamgate_requests_success''" s, unfolded kBufferSize_def] a(2) by auto
  have c: "server_text (t, s, f) = ?b @ ''streamgate_requests_failed '' @ dec_of_nat (unat f) @ [CHR 0x0A]"
    "length (server_text (t, s, f)) \<le> 144"
    using append_metric_fits [of ?b "''streamgate_requests_failed''" f, unfolded kBufferSize_def] b(2)
    by (auto simp: server_text_def)
  show ?thesis using c(1) [unfolded b(1), unfolded a(1)] c(2) by (simp add: kBufferSize_def)
qed

text \<open>A cache pointer that is set while the manager is not running ends the process at the next refresh.\<close>

lemma cache_refresh_terminates:
  assumes "\<not> io_running (lv_cache lv)"
  shows "run_state (refresh lv (new_provider (CacheMetrics True))) w = (Inl (LogicError ping_contract), w)"
  using assms by (auto simp: refresh_def new_provider_def refresh_cache_def bindE_def ping_def State_Monad.bind_def
      split: option.splits)

lemma registerProvider_sorted:
  assumes "ranges_sort (\<lambda>p. metricsName (pv_kind p)) srt"
  shows "sorted (map (\<lambda>p. metricsName (pv_kind p)) (mc_providers (registerProvider srt (Some p) c)))
    \<and> mset (mc_providers (registerProvider srt (Some p) c)) = add_mset p (mset (mc_providers c))"
  using assms by (simp add: registerProvider_def ranges_sort_def)

end
