(* ===== verification/Thread_Pool.thy ===== *)
theory Thread_Pool
  imports Transitions Sg_Prelude "HOL-Library.Word" "HOL-Library.Multiset"
begin

text \<open>
  \<open>ThreadPool\<close> (\<open>include/ThreadPool.h\<close>, \<open>src/util/ThreadPool.cpp\<close>) as a labelled step relation.
  The queue mutex is the field \<open>holder\<close>: a submission that has passed its checks holds it until it
  has pushed its task, so that the stop flag, which is set without the mutex, may change in between.
  The critical section of a worker is one step that needs the mutex free. A task is what the submitted
  callable does when called, a value or an exception; the queue holds it inside a
  \<open>std::packaged_task\<close>. The counters keep their 64 bits.
\<close>

section \<open>Tasks\<close>

record 'r Job =
  job_id :: nat
  job_result :: "exn + 'r"

text \<open>
  Calling the queued function object: the packaged task stores the value or the exception of the
  callable in the shared state of the future and itself returns normally.
\<close>

definition packaged_call :: "'r Job \<Rightarrow> (exn + unit) \<times> (exn + 'r)" where
  "packaged_call j = (Inr (), job_result j)"

section \<open>State\<close>

datatype 'r worker = Blocked | Running "'r Job" | Exited

record 'r ThreadPool =
  numThreads :: nat
  maxQueueSize :: nat
  tasks :: "'r Job list"
  workers :: "'r worker list"
  holder :: "'r Job option"
  stopped :: bool
  requested :: nat
  totalSubmitted :: "64 word"
  completedTasks :: "64 word"
  failedTasks :: "64 word"
  rejectedTasks :: "64 word"
  lastLoggedSize :: nat

text \<open>\<open>requested\<close> counts the workers whose stop token has been signalled, in the order of the vector.\<close>

definition fresh_pool :: "nat \<Rightarrow> nat \<Rightarrow> 'r ThreadPool" where
  "fresh_pool num_threads max_queue_size =
     \<lparr>numThreads = num_threads, maxQueueSize = max_queue_size, tasks = [],
      workers = replicate num_threads Blocked, holder = None, stopped = False, requested = 0,
      totalSubmitted = 0, completedTasks = 0, failedTasks = 0, rejectedTasks = 0, lastLoggedSize = 0\<rparr>"

definition new_ThreadPool :: "nat \<Rightarrow> nat \<Rightarrow> exn + 'r ThreadPool" where
  "new_ThreadPool num_threads max_queue_size =
     (if num_threads = 0 then Inl InvalidArgument else Inr (fresh_pool num_threads max_queue_size))"

definition queue_full :: "'r ThreadPool \<Rightarrow> bool" where
  "queue_full p \<longleftrightarrow> 0 < maxQueueSize p \<and> maxQueueSize p \<le> length (tasks p)"

definition checkQueueSize :: "nat \<Rightarrow> 'r ThreadPool \<Rightarrow> 'r ThreadPool" where
  "checkQueueSize sz p =
     (let threshold = (if 0 < maxQueueSize p then maxQueueSize p * 3 div 4 else 500) in
      if threshold \<le> sz \<and> lastLoggedSize p + 50 < sz then p\<lparr>lastLoggedSize := sz\<rparr> else p)"

definition submit_push :: "'r Job \<Rightarrow> 'r ThreadPool \<Rightarrow> 'r ThreadPool" where
  "submit_push j p =
     (let p = p\<lparr>tasks := tasks p @ [j], totalSubmitted := totalSubmitted p + 1\<rparr>;
          p = (if maxQueueSize p div 2 < length (tasks p) then checkQueueSize (length (tasks p)) p else p)
      in p\<lparr>holder := None\<rparr>)"

definition submit_rejected :: "'r ThreadPool \<Rightarrow> exn \<times> 'r ThreadPool" where
  "submit_rejected p =
     (if stopped p then RuntimeError ''ThreadPool is stopping or closed''
      else RuntimeError (''ThreadPool queue is full ('' @ to_string (int (maxQueueSize p)) @ '')''),
      p\<lparr>rejectedTasks := rejectedTasks p + 1\<rparr>)"

text \<open>A worker runs the task it took: the function object is called, and its outcome counted.\<close>

definition worker_execute :: "nat \<Rightarrow> 'r Job \<Rightarrow> 'r ThreadPool \<Rightarrow> 'r ThreadPool" where
  "worker_execute i j p =
     (let p = p\<lparr>workers := (workers p)[i := Blocked]\<rparr> in
      (case fst (packaged_call j) of
         Inr _ \<Rightarrow> p\<lparr>completedTasks := completedTasks p + 1\<rparr>
       | Inl _ \<Rightarrow> p\<lparr>failedTasks := failedTasks p + 1\<rparr>))"

text \<open>
  The parts of \<open>stop_and_wait\<close> before its join: the flag, the stop signal to the next worker, and the
  polling of a timed drain, given what each poll reads: the finished tasks and the time elapsed. It
  ends with \<^term>\<open>True\<close> when all is finished and with \<^term>\<open>False\<close> at the time limit, and needs
  another poll otherwise; either way the join follows.
\<close>

definition begin_stop :: "'r ThreadPool \<Rightarrow> 'r ThreadPool" where
  "begin_stop p = p\<lparr>stopped := True\<rparr>"

definition request_stop :: "'r ThreadPool \<Rightarrow> 'r ThreadPool" where
  "request_stop p = p\<lparr>requested := requested p + 1\<rparr>"

fun drain_wait :: "64 word \<Rightarrow> int \<Rightarrow> (64 word \<times> int) list \<Rightarrow> bool option" where
  "drain_wait target timeout [] = None"
| "drain_wait target timeout ((finished, elapsed) # polls) =
     (if timeout \<le> 0 then Some True
      else if target \<le> finished then Some True
      else if timeout \<le> elapsed then Some False
      else drain_wait target timeout polls)"

section \<open>Steps\<close>

datatype 'r pool_event =
    Accepted "'r Job" | Refused exn | Entered "'r Job"
  | Took nat "'r Job" | Ran_job nat "'r Job" "exn + 'r" | Left nat
  | Stop_called | Stop_signalled nat

text \<open>The steps of the workers, one per critical section or task, and their exit.\<close>

inductive worker_step :: "'r ThreadPool \<Rightarrow> 'r pool_event \<Rightarrow> 'r ThreadPool \<Rightarrow> bool" where
  take: "\<lbrakk>i < length (workers p); workers p ! i = Blocked; holder p = None; tasks p = j # js\<rbrakk>
    \<Longrightarrow> worker_step p (Took i j) (p\<lparr>tasks := js, workers := (workers p)[i := Running j]\<rparr>)"
| run_task: "\<lbrakk>i < length (workers p); workers p ! i = Running j\<rbrakk>
    \<Longrightarrow> worker_step p (Ran_job i j (snd (packaged_call j))) (worker_execute i j p)"
| exit: "\<lbrakk>i < length (workers p); workers p ! i = Blocked; holder p = None; tasks p = []; i < requested p\<rbrakk>
    \<Longrightarrow> worker_step p (Left i) (p\<lparr>workers := (workers p)[i := Exited]\<rparr>)"

text \<open>The steps of the clients: \<open>submit\<close> in two parts, and \<open>stop_and_wait\<close> up to its join.\<close>

inductive client_step :: "'r ThreadPool \<Rightarrow> 'r pool_event \<Rightarrow> 'r ThreadPool \<Rightarrow> bool" where
  refuse: "\<lbrakk>holder p = None; stopped p \<or> queue_full p\<rbrakk>
    \<Longrightarrow> client_step p (Refused (fst (submit_rejected p))) (snd (submit_rejected p))"
| enter: "\<lbrakk>holder p = None; \<not> stopped p; \<not> queue_full p\<rbrakk>
    \<Longrightarrow> client_step p (Entered j) (p\<lparr>holder := Some j\<rparr>)"
| push: "holder p = Some j \<Longrightarrow> client_step p (Accepted j) (submit_push j p)"
| stop: "\<not> stopped p \<Longrightarrow> client_step p Stop_called (begin_stop p)"
| signal: "\<lbrakk>stopped p; requested p < length (workers p)\<rbrakk>
    \<Longrightarrow> client_step p (Stop_signalled (requested p)) (request_stop p)"

definition pool_step :: "'r ThreadPool \<Rightarrow> 'r pool_event \<Rightarrow> 'r ThreadPool \<Rightarrow> bool" where
  "pool_step p e q \<longleftrightarrow> worker_step p e q \<or> client_step p e q"

text \<open>The join of \<open>stop_and_wait\<close> returns when every worker has left.\<close>

definition joined :: "'r ThreadPool \<Rightarrow> bool" where
  "joined p \<longleftrightarrow> list_all (\<lambda>w. w = Exited) (workers p)"

record PoolStats =
  ps_num_threads :: nat
  ps_queued :: nat
  ps_submitted :: "64 word"
  ps_completed :: "64 word"
  ps_failed :: "64 word"
  ps_rejected :: "64 word"

definition get_stats :: "'r ThreadPool \<Rightarrow> PoolStats" where
  "get_stats p =
     \<lparr>ps_num_threads = numThreads p, ps_queued = length (tasks p), ps_submitted = totalSubmitted p,
      ps_completed = completedTasks p, ps_failed = failedTasks p, ps_rejected = rejectedTasks p\<rparr>"

definition reset_stats :: "'r ThreadPool \<Rightarrow> 'r ThreadPool" where
  "reset_stats p = p\<lparr>totalSubmitted := 0, completedTasks := 0, failedTasks := 0, rejectedTasks := 0\<rparr>"

section \<open>The invariant\<close>

text \<open>What the events of a run say: the tasks accepted, taken and run, in order.\<close>

fun accepted_of :: "'r pool_event list \<Rightarrow> 'r Job list" where
  "accepted_of [] = []"
| "accepted_of (Accepted j # es) = j # accepted_of es"
| "accepted_of (_ # es) = accepted_of es"

fun taken_of :: "'r pool_event list \<Rightarrow> 'r Job list" where
  "taken_of [] = []"
| "taken_of (Took i j # es) = j # taken_of es"
| "taken_of (_ # es) = taken_of es"

fun ran_of :: "'r pool_event list \<Rightarrow> ('r Job \<times> (exn + 'r)) list" where
  "ran_of [] = []"
| "ran_of (Ran_job i j r # es) = (j, r) # ran_of es"
| "ran_of (_ # es) = ran_of es"

lemma of_append [simp]:
  "accepted_of (es @ fs) = accepted_of es @ accepted_of fs"
  "taken_of (es @ fs) = taken_of es @ taken_of fs"
  "ran_of (es @ fs) = ran_of es @ ran_of fs"
proof -
  show "accepted_of (es @ fs) = accepted_of es @ accepted_of fs"
    by (induction es rule: accepted_of.induct) simp_all
  show "taken_of (es @ fs) = taken_of es @ taken_of fs"
    by (induction es rule: taken_of.induct) simp_all
  show "ran_of (es @ fs) = ran_of es @ ran_of fs"
    by (induction es rule: ran_of.induct) simp_all
qed

text \<open>The tasks the workers are running.\<close>

fun jobs_of :: "'r worker \<Rightarrow> 'r Job multiset" where
  "jobs_of (Running j) = {#j#}"
| "jobs_of _ = {#}"

definition running :: "'r ThreadPool \<Rightarrow> 'r Job multiset" where
  "running p = sum_list (map jobs_of (workers p))"

lemma running_start:
  "i < length ws \<Longrightarrow> ws ! i = Blocked \<Longrightarrow>
   sum_list (map jobs_of (ws[i := Running j])) = add_mset j (sum_list (map jobs_of ws))"
  using sum_list_map_update [of i ws jobs_of "Running j"] by simp

lemma running_finish:
  "i < length ws \<Longrightarrow> ws ! i = Running j \<Longrightarrow>
   sum_list (map jobs_of ws) = add_mset j (sum_list (map jobs_of (ws[i := Blocked])))"
  using sum_list_map_update [of i ws jobs_of Blocked] by simp

lemma running_exit:
  "i < length ws \<Longrightarrow> ws ! i = Blocked \<Longrightarrow> sum_list (map jobs_of (ws[i := Exited])) = sum_list (map jobs_of ws)"
  using sum_list_map_update [of i ws jobs_of Exited] by simp

definition inv_history :: "'r pool_event list \<Rightarrow> 'r ThreadPool \<Rightarrow> bool" where
  "inv_history es p \<longleftrightarrow>
     accepted_of es = taken_of es @ tasks p
     \<and> mset (taken_of es) = mset (map fst (ran_of es)) + running p
     \<and> list_all (\<lambda>(j, r). r = job_result j) (ran_of es)"

definition inv_exit :: "'r pool_event list \<Rightarrow> 'r ThreadPool \<Rightarrow> bool" where
  "inv_exit es p \<longleftrightarrow>
     (Exited \<in> set (workers p) \<longrightarrow> stopped p \<and> tasks p = [] \<and> holder p = None)
     \<and> (0 < requested p \<longrightarrow> stopped p)"

definition inv_bound :: "nat \<Rightarrow> nat \<Rightarrow> 'r pool_event list \<Rightarrow> 'r ThreadPool \<Rightarrow> bool" where
  "inv_bound n m es p \<longleftrightarrow>
     numThreads p = n \<and> length (workers p) = n \<and> requested p \<le> n \<and> maxQueueSize p = m
     \<and> (0 < m \<longrightarrow> length (tasks p) + (if holder p = None then 0 else 1) \<le> m)"

definition inv_counts :: "'r pool_event list \<Rightarrow> 'r ThreadPool \<Rightarrow> bool" where
  "inv_counts es p \<longleftrightarrow>
     totalSubmitted p = of_nat (length (accepted_of es)) \<and> completedTasks p = of_nat (length (ran_of es))
     \<and> failedTasks p = 0"

lemma worker_execute [simp]:
  "worker_execute i j p = p\<lparr>workers := (workers p)[i := Blocked], completedTasks := completedTasks p + 1\<rparr>"
  by (simp add: worker_execute_def packaged_call_def Let_def)

lemma packaged_call_result [simp]: "snd (packaged_call j) = job_result j"
  by (simp add: packaged_call_def)

lemmas stop_defs [simp] = begin_stop_def request_stop_def

lemma checkQueueSize_frame [simp]:
  "tasks (checkQueueSize n p) = tasks p" "workers (checkQueueSize n p) = workers p"
  "stopped (checkQueueSize n p) = stopped p" "requested (checkQueueSize n p) = requested p"
  "numThreads (checkQueueSize n p) = numThreads p" "maxQueueSize (checkQueueSize n p) = maxQueueSize p"
  "totalSubmitted (checkQueueSize n p) = totalSubmitted p"
  "completedTasks (checkQueueSize n p) = completedTasks p" "failedTasks (checkQueueSize n p) = failedTasks p"
  by (simp_all add: checkQueueSize_def Let_def)

lemma submit_push_fields [simp]:
  "tasks (submit_push j p) = tasks p @ [j]" "workers (submit_push j p) = workers p"
  "stopped (submit_push j p) = stopped p" "requested (submit_push j p) = requested p"
  "numThreads (submit_push j p) = numThreads p" "maxQueueSize (submit_push j p) = maxQueueSize p"
  "totalSubmitted (submit_push j p) = totalSubmitted p + 1" "holder (submit_push j p) = None"
  "completedTasks (submit_push j p) = completedTasks p" "failedTasks (submit_push j p) = failedTasks p"
  by (simp_all add: submit_push_def Let_def)

lemma exited_update: "Exited \<in> set (ws[i := w]) \<Longrightarrow> w \<noteq> Exited \<Longrightarrow> Exited \<in> set ws"
  using set_update_subset_insert by fastforce

lemma history_step:
  assumes "inv_history es p" "pool_step p e q"
  shows "inv_history (es @ [e]) q"
proof -
  have "inv_history (es @ [e]) q" if "worker_step p e q"
    using that assms(1)
  proof (induction rule: worker_step.induct)
    case (run_task i p j)
    then show ?case
      using running_finish [of i "workers p" j] by (simp add: inv_history_def running_def)
  qed (simp_all add: inv_history_def running_def running_start running_exit)
  moreover have "inv_history (es @ [e]) q" if "client_step p e q"
    using that assms(1)
    by (induction rule: client_step.induct) (simp_all add: inv_history_def running_def submit_rejected_def)
  ultimately show ?thesis using assms(2) by (auto simp: pool_step_def)
qed

lemma exit_step:
  assumes "inv_exit es p" "pool_step p e q"
  shows "inv_exit (es @ [e]) q"
proof -
  have "inv_exit (es @ [e]) q" if "worker_step p e q"
    using that assms(1)
    by (induction rule: worker_step.induct) (auto simp: inv_exit_def dest!: exited_update)
  moreover have "inv_exit (es @ [e]) q" if "client_step p e q"
    using that assms(1)
    by (induction rule: client_step.induct) (auto simp: inv_exit_def submit_rejected_def)
  ultimately show ?thesis using assms(2) by (auto simp: pool_step_def)
qed

lemma bound_step:
  assumes "inv_bound n m es p" "pool_step p e q"
  shows "inv_bound n m (es @ [e]) q"
proof -
  have "inv_bound n m (es @ [e]) q" if "worker_step p e q"
    using that assms(1) by (induction rule: worker_step.induct) (auto simp: inv_bound_def)
  moreover have "inv_bound n m (es @ [e]) q" if "client_step p e q"
    using that assms(1)
    by (induction rule: client_step.induct) (auto simp: inv_bound_def submit_rejected_def queue_full_def)
  ultimately show ?thesis using assms(2) by (auto simp: pool_step_def)
qed

lemma counts_step:
  assumes "inv_counts es p" "pool_step p e q"
  shows "inv_counts (es @ [e]) q"
proof -
  have "inv_counts (es @ [e]) q" if "worker_step p e q"
    using that assms(1) by (induction rule: worker_step.induct) (auto simp: inv_counts_def)
  moreover have "inv_counts (es @ [e]) q" if "client_step p e q"
    using that assms(1) by (induction rule: client_step.induct) (auto simp: inv_counts_def submit_rejected_def)
  ultimately show ?thesis using assms(2) by (auto simp: pool_step_def)
qed

lemma none_running [simp]: "sum_list (replicate n {#}) = {#}"
  by (induction n) auto

lemma none_left: "list_all (\<lambda>w. w = Exited) ws \<Longrightarrow> sum_list (map jobs_of ws) = {#}"
  by (induction ws) auto

interpretation pool_history: history_invariant "fresh_pool n m" pool_step inv_history for n m
  by unfold_locales (simp add: inv_history_def fresh_pool_def running_def, rule history_step)

interpretation pool_exit: history_invariant "fresh_pool n m" pool_step inv_exit for n m
  by unfold_locales (simp add: inv_exit_def fresh_pool_def, rule exit_step)

interpretation pool_bound: history_invariant "fresh_pool n m" pool_step "inv_bound n m" for n m
  by unfold_locales (simp add: inv_bound_def fresh_pool_def, rule bound_step)

interpretation pool_counts: history_invariant "fresh_pool n m" pool_step inv_counts for n m
  by unfold_locales (simp add: inv_counts_def fresh_pool_def, rule counts_step)

section \<open>Draining\<close>

text \<open>After the stop has been signalled to every worker and no submission is under way.\<close>

definition draining :: "'r ThreadPool \<Rightarrow> bool" where
  "draining p \<longleftrightarrow> requested p = length (workers p) \<and> holder p = None"

fun worker_weight :: "'r worker \<Rightarrow> nat" where
  "worker_weight (Running _) = 2" | "worker_weight Blocked = 1" | "worker_weight Exited = 0"

definition drain_weight :: "'r ThreadPool \<Rightarrow> nat" where
  "drain_weight p = 3 * length (tasks p) + sum_list (map worker_weight (workers p))"

interpretation drain: decreasing worker_step draining drain_weight
proof
  fix p q :: "'r ThreadPool" and e
  assume p: "draining p" and step: "worker_step p e q"
  show "draining q" using step p by (induction rule: worker_step.induct) (auto simp: draining_def)
  show "drain_weight q < drain_weight p"
    using step
  proof (induction rule: worker_step.induct)
    case (take i p j js)
    then show ?case using sum_list_map_update [of i "workers p" worker_weight "Running j"] by (simp add: drain_weight_def)
  next
    case (run_task i p j)
    then show ?case using sum_list_map_update [of i "workers p" worker_weight Blocked] by (simp add: drain_weight_def)
  next
    case (exit i p)
    then show ?case using sum_list_map_update [of i "workers p" worker_weight Exited] by (simp add: drain_weight_def)
  qed
qed

lemma draining_stuck:
  assumes "draining p" "\<nexists>e q. worker_step p e q"
  shows "joined p"
  unfolding joined_def list_all_length
proof (intro allI impI, rule ccontr)
  fix i assume i: "i < length (workers p)" "workers p ! i \<noteq> Exited"
  show False
  proof (cases "workers p ! i")
    case Blocked
    then show False
      using assms i take [of i p] exit [of i p] by (cases "tasks p") (auto simp: draining_def)
  qed (use assms i run_task [of i p] in auto)
qed

lemma draining_ends: "draining p \<Longrightarrow> \<exists>es q. run worker_step p es q \<and> joined q"
  using drain.run_to_end [of p] drain.run_bounded [of p] draining_stuck by blast

lemma weight_le: "sum_list (map worker_weight ws) \<le> 2 * length ws"
proof (induction ws)
  case (Cons w ws)
  then show ?case by (cases w) auto
qed simp

section \<open>Properties\<close>

text \<open>
  C29. The books of the pool balance after every interleaving of submissions, workers and a stop:
  tasks are taken in the order they were accepted, the tasks taken are those that ran and those that
  are running, a task that ran delivered its own value or exception to its future, and the counters
  are the numbers of tasks accepted and run, modulo \<open>2 ^ 64\<close>.
\<close>

theorem pool_accounting:
  assumes "new_ThreadPool n m = Inr p0" "run pool_step p0 es p"
  shows "accepted_of es = taken_of es @ tasks p
    \<and> mset (taken_of es) = mset (map fst (ran_of es)) + running p
    \<and> list_all (\<lambda>(j, r). r = job_result j) (ran_of es)
    \<and> totalSubmitted p = of_nat (length (accepted_of es))
    \<and> completedTasks p + failedTasks p = of_nat (length (ran_of es))"
proof -
  have p0: "p0 = fresh_pool n m" using assms(1) by (simp add: new_ThreadPool_def split: if_splits)
  show ?thesis
    using pool_history.inv_run [OF assms(2) [unfolded p0]] pool_counts.inv_run [OF assms(2) [unfolded p0]]
    by (simp add: inv_history_def inv_counts_def)
qed

definition demo_job :: "nat Job" where
  "demo_job = \<lparr>job_id = 7, job_result = Inl (RuntimeError ''boom'')\<rparr>"

definition demo_events :: "nat pool_event list" where
  "demo_events =
     [Entered demo_job, Stop_called, Accepted demo_job, Took 0 demo_job,
      Ran_job 0 demo_job (Inl (RuntimeError ''boom'')), Stop_signalled 0, Left 0]"

text \<open>A run in which the stop comes while a submission is under way.\<close>

definition demo_pool :: "nat ThreadPool" where
  "demo_pool = fresh_pool 1 2"

lemma demo_run: "\<exists>p. run pool_step demo_pool demo_events p \<and> joined p"
proof -
  let ?p0 = demo_pool
  let ?p1 = "?p0\<lparr>holder := Some demo_job\<rparr>"
  let ?p2 = "begin_stop ?p1"
  let ?p3 = "submit_push demo_job ?p2"
  let ?p4 = "?p3\<lparr>tasks := [], workers := (workers ?p3)[0 := Running demo_job]\<rparr>"
  let ?p5 = "worker_execute 0 demo_job ?p4"
  let ?p6 = "request_stop ?p5"
  let ?p7 = "?p6\<lparr>workers := (workers ?p6)[0 := Exited]\<rparr>"
  have f: "tasks ?p0 = []" "workers ?p0 = [Blocked]" "holder ?p0 = None" "stopped ?p0 = False"
    "requested ?p0 = 0" "maxQueueSize ?p0 = 2"
    by (simp_all add: demo_pool_def fresh_pool_def)
  have "client_step ?p0 (Entered demo_job) ?p1" by (rule enter) (simp_all add: f queue_full_def)
  moreover have "client_step ?p1 Stop_called ?p2" by (rule stop) (simp add: f)
  moreover have "client_step ?p2 (Accepted demo_job) ?p3" by (rule push) simp
  moreover have "worker_step ?p3 (Took 0 demo_job) ?p4" by (rule take) (simp_all add: f)
  moreover have "worker_step ?p4 (Ran_job 0 demo_job (Inl (RuntimeError ''boom''))) ?p5"
    using run_task [of 0 ?p4 demo_job] by (simp add: f demo_job_def)
  moreover have "client_step ?p5 (Stop_signalled 0) ?p6"
    using signal [of ?p5] by (simp add: f)
  moreover have "worker_step ?p6 (Left 0) ?p7" by (rule exit) (simp_all add: f)
  ultimately have "run pool_step ?p0 demo_events ?p7"
    unfolding demo_events_def by (blast intro: run_Cons run_nil pool_step_def [THEN iffD2])
  moreover have "joined ?p7" by (simp add: joined_def f)
  ultimately show ?thesis by blast
qed

lemma demo_new: "new_ThreadPool 1 2 = Inr demo_pool"
  by (simp add: new_ThreadPool_def demo_pool_def)

theorem pool_accounting_witness:
  "\<exists>p :: nat ThreadPool. accepted_of demo_events = taken_of demo_events @ tasks p
    \<and> mset (taken_of demo_events) = mset (map fst (ran_of demo_events)) + running p
    \<and> list_all (\<lambda>(j, r). r = job_result j) (ran_of demo_events)
    \<and> totalSubmitted p = of_nat (length (accepted_of demo_events))
    \<and> completedTasks p + failedTasks p = of_nat (length (ran_of demo_events))"
  using demo_run pool_accounting [OF demo_new] by blast

lemma joined_all_ran:
  assumes "0 < n" and r: "run pool_step (fresh_pool n m) es p" and "joined p"
  shows "tasks p = [] \<and> holder p = None \<and> mset (map fst (ran_of es)) = mset (accepted_of es)
    \<and> completedTasks p = totalSubmitted p"
proof -
  have "length (workers p) = n" using pool_bound.inv_run [OF r] by (simp add: inv_bound_def)
  then have "Exited \<in> set (workers p)"
    using assms(3,1) by (cases "workers p") (auto simp: joined_def)
  then have empty: "tasks p = []" "holder p = None"
    using pool_exit.inv_run [OF r] by (auto simp: inv_exit_def)
  have "running p = {#}"
    using assms(3) none_left by (simp add: joined_def running_def)
  then have "mset (map fst (ran_of es)) = mset (accepted_of es)"
    using pool_history.inv_run [OF r] empty by (simp add: inv_history_def)
  moreover from this have "length (ran_of es) = length (accepted_of es)"
    by (metis length_map size_mset)
  ultimately show ?thesis
    using pool_counts.inv_run [OF r] empty by (simp add: inv_counts_def)
qed

text \<open>
  C7. A stop loses no accepted task: when every worker has left, the queue is empty, every task that
  was ever accepted has run exactly once, and the number of completed tasks is the number submitted;
  this holds even when the stop comes between the checks of a submission and its push.
\<close>

theorem stop_loses_no_task:
  assumes "new_ThreadPool n m = Inr p0" "run pool_step p0 es p" "joined p"
  shows "tasks p = [] \<and> holder p = None \<and> mset (map fst (ran_of es)) = mset (accepted_of es)
    \<and> completedTasks p = totalSubmitted p"
  using assms joined_all_ran [of n m es p] by (auto simp: new_ThreadPool_def split: if_splits)

theorem stop_loses_no_task_witness:
  "\<exists>p :: nat ThreadPool. tasks p = [] \<and> holder p = None
    \<and> mset (map fst (ran_of demo_events)) = mset (accepted_of demo_events)
    \<and> completedTasks p = totalSubmitted p"
  using demo_run stop_loses_no_task [OF demo_new] by blast

text \<open>
  C31. A bounded queue stays within its bound: with a maximal size above zero, the queue never holds
  more tasks, counting a submission that has passed its check and not yet pushed, and the number of
  workers does not change.
\<close>

theorem pool_queue_bounded:
  assumes "new_ThreadPool n m = Inr p0" "run pool_step p0 es p" "0 < m"
  shows "length (tasks p) + (if holder p = None then 0 else 1) \<le> m \<and> length (workers p) = n"
proof -
  have "p0 = fresh_pool n m" using assms(1) by (simp add: new_ThreadPool_def split: if_splits)
  from pool_bound.inv_run [OF assms(2) [unfolded this]] show ?thesis
    using assms(3) by (auto simp: inv_bound_def)
qed

theorem pool_queue_bounded_witness:
  "\<exists>p :: nat ThreadPool. run pool_step demo_pool demo_events p
    \<and> length (tasks p) + (if holder p = None then 0 else 1) \<le> 2 \<and> length (workers p) = 1"
  using demo_run pool_queue_bounded [OF demo_new] zero_less_numeral by blast

text \<open>
  C30. A stopped pool drains: once every worker has been signalled and no submission is under way,
  the workers make at most three steps per queued task and two per worker, whatever their order; they
  are stuck only when all have left; and a run to that end exists, so the join returns.
\<close>

theorem stopped_pool_drains:
  assumes "draining p"
  shows "(\<forall>es q. run worker_step p es q \<longrightarrow> length es \<le> 3 * length (tasks p) + 2 * length (workers p)
            \<and> ((\<nexists>e r. worker_step q e r) \<longrightarrow> joined q))
    \<and> (\<exists>es q. run worker_step p es q \<and> joined q)"
proof -
  have stuck: "joined q" if "run worker_step p es q" "\<nexists>e r. worker_step q e r" for es q
    using drain.run_bounded [OF that(1) assms] draining_stuck that(2) by blast
  moreover have "length es \<le> 3 * length (tasks p) + 2 * length (workers p)" if "run worker_step p es q" for es q
    using drain.run_bounded [OF that assms] weight_le [of "workers p"] by (simp add: drain_weight_def)
  ultimately show ?thesis
    using draining_ends [OF assms] by blast
qed

definition demo_busy :: "nat ThreadPool" where
  "demo_busy = (fresh_pool 2 5)\<lparr>stopped := True, requested := 2, tasks := [demo_job, demo_job],
     workers := [Running demo_job, Blocked]\<rparr>"

theorem stopped_pool_drains_witness:
  "\<exists>es q. run worker_step demo_busy es q \<and> joined q \<and> length es \<le> 10"
proof -
  have d: "draining demo_busy" by (simp add: draining_def demo_busy_def fresh_pool_def)
  have n: "3 * length (tasks demo_busy) + 2 * length (workers demo_busy) = 10"
    by (simp add: demo_busy_def)
  from stopped_pool_drains [OF d, unfolded n] show ?thesis by blast
qed

text \<open>
  The pool never counts a failed task: whatever the submitted callables throw, the counter of
  failed tasks stays zero and a throwing task counts as completed, because the queue holds packaged
  tasks, which keep the exception for the future.
\<close>

theorem failures_never_counted:
  assumes "new_ThreadPool n m = Inr p0" "run pool_step p0 es p"
  shows "failedTasks p = 0 \<and> completedTasks p = of_nat (length (ran_of es))"
proof -
  have "p0 = fresh_pool n m" using assms(1) by (simp add: new_ThreadPool_def split: if_splits)
  from pool_counts.inv_run [OF assms(2) [unfolded this]] show ?thesis
    by (simp add: inv_counts_def)
qed

theorem failures_never_counted_witness:
  "\<exists>p :: nat ThreadPool. job_result demo_job = Inl (RuntimeError ''boom'')
    \<and> failedTasks p = 0 \<and> completedTasks p = of_nat (length (ran_of demo_events))"
  using demo_run failures_never_counted [OF demo_new] by (auto simp: demo_job_def)

end
