(* ===== verification/Gate_Main.thy ===== *)
theory Gate_Main
  imports Hook_Properties Config_Loader Logger Metrics Thread_Pool
begin

text \<open>
  The program (\<open>src/main/main.cpp\<close>): the settings it reads, the order in which it builds and starts the
  components, and the service it then runs. What it finds outside (files, environment, database driver,
  Redis client, linker section, sockets) is the record \<open>Platform\<close>. The start ends with the failure that
  makes \<open>main\<close> return \<open>EXIT_FAILURE\<close>, or with the service. The shutdown is in \<open>Gate_Shutdown\<close>.
\<close>

section \<open>Settings\<close>

definition log_settings :: "ConfigLoader \<Rightarrow> LogConfig" where
  "log_settings cl = default_LogConfig\<lparr>
     min_level := getInt_or ''LOG_LEVEL'' 1 cl,
     log_to_console := getBool_or ''LOG_TO_CONSOLE'' True cl,
     log_to_file := getBool_or ''LOG_TO_FILE'' False cl,
     log_file_path := getString_or ''LOG_FILE_PATH'' ''streamgate.log'' cl\<rparr>"

record DbConfig =
  cfg_url :: string
  cfg_user :: string
  cfg_password :: string
  cfg_minSize :: int
  cfg_maxSize :: int
  cfg_checkoutTimeoutMs :: int

definition db_settings :: "ConfigLoader \<Rightarrow> DbConfig" where
  "db_settings cl =
     \<lparr>cfg_url = ''tcp://'' @ getString_or ''DB_HOST'' ''127.0.0.1'' cl @ '':'' @ getString_or ''DB_PORT'' ''3306'' cl
        @ ''/'' @ getString_or ''DB_NAME'' ''streamgate_db'' cl,
      cfg_user = getString_or ''DB_USER'' ''root'' cl,
      cfg_password = getString_or ''DB_PASS'' '''' cl,
      cfg_minSize = getInt_or ''DB_MIN_SIZE'' 2 cl,
      cfg_maxSize = getInt_or ''DB_MAX_SIZE'' 10 cl,
      cfg_checkoutTimeoutMs = getInt_or ''DB_TIMEOUT_MS'' 5000 cl\<rparr>"

record ServerConfig =
  cfg_address :: string
  cfg_port :: int
  cfg_io_threads :: int

definition server_settings :: "ConfigLoader \<Rightarrow> ServerConfig" where
  "server_settings cl =
     \<lparr>cfg_address = getString_or ''SERVER_ADDRESS'' ''0.0.0.0'' cl,
      cfg_port = getInt_or ''SERVER_PORT'' 8080 cl,
      cfg_io_threads = getInt_or ''SERVER_IO_THREADS'' 2 cl\<rparr>"

section \<open>The start\<close>

record 'w Platform =
  pf_files :: "string \<Rightarrow> string option"
  pf_environ :: "string \<Rightarrow> string option"
  pf_openable :: "string \<Rightarrow> bool"
  pf_driver :: "string option"
  pf_tries :: "DbConfig \<Rightarrow> connect_result list"
  pf_connect :: "string \<Rightarrow> int \<Rightarrow> string option \<Rightarrow> int \<Rightarrow> exn + 'w redis"
  pf_json :: json_lib
  pf_db :: "'w auth_db"
  pf_section :: "provider option option list option"
  pf_sort :: "provider list \<Rightarrow> provider list"
  pf_bind :: "string \<Rightarrow> int \<Rightarrow> bool"

text \<open>The objects that exist before \<open>main\<close> runs: the singletons, and the sinks of the log.\<close>

record 'w Singletons =
  sg_config :: ConfigLoader
  sg_logger :: Logger
  sg_sinks :: Sinks
  sg_cache :: "'w CacheManager"
  sg_collector :: MetricsCollector

definition fresh_singletons :: "'w Singletons" where
  "fresh_singletons =
     \<lparr>sg_config = new_ConfigLoader, sg_logger = new_Logger, sg_sinks = \<lparr>console = '''', file_text = (\<lambda>_. '''')\<rparr>,
      sg_cache = new_CacheManager, sg_collector = new_MetricsCollector\<rparr>"

record 'w Service =
  sv_config :: ConfigLoader
  sv_logger :: Logger
  sv_db :: DBManager
  sv_cache :: "'w CacheManager"
  sv_pool :: "unit ThreadPool"
  sv_repo :: HybridAuthRepository
  sv_auth :: AuthManager
  sv_scheduler :: Scheduler
  sv_collector :: MetricsCollector
  sv_server :: HookServer

datatype start_failure = Threw exn | No_pong

text \<open>
  The pool: the number of workers is an \<open>int\<close> that becomes a \<open>size_t\<close>, so that a negative number makes
  \<open>reserve\<close> throw \<open>std::length_error\<close>.
\<close>

definition make_pool :: "int \<Rightarrow> exn + unit ThreadPool" where
  "make_pool pool_size =
     (if pool_size < 0 then Inl (LogicError ''vector::reserve'') else new_ThreadPool (nat pool_size) 1000)"

definition load_nodes :: "'w Platform \<Rightarrow> NodeConfig" where
  "load_nodes P =
     (case fromJsonFile (pf_json P) ''config/nodes.json'' (pf_files P ''config/nodes.json'')
             \<lparr>allow_empty_endpoints = False, strict_port_rang = True, require_valid_hosts = True\<rparr> of
        Inr cfg \<Rightarrow> assign_NodeConfig new_NodeConfig cfg
      | Inl _ \<Rightarrow> new_NodeConfig)"

text \<open>The parts that are built once the database, the cache and the pool are up; none of this throws.\<close>

definition assemble ::
  "'w Platform \<Rightarrow> ConfigLoader \<Rightarrow> Logger \<Rightarrow> DBManager \<Rightarrow> 'w CacheManager \<Rightarrow> unit ThreadPool \<Rightarrow> AuthManager \<Rightarrow>
   MetricsCollector \<Rightarrow> 'w Service" where
  "assemble P cl lg db cm pool am collector =
     (let server_cfg = server_settings cl in
      \<lparr>sv_config = cl, sv_logger = lg, sv_db = db, sv_cache = cm, sv_pool = pool,
       sv_repo = new_HybridAuthRepository cm, sv_auth = am,
       sv_scheduler =
         snd (start (new_Scheduler (load_nodes P) 30 (getInt_or ''SCHEDULER_TIMEOUT_SEC'' 60 cl))),
       sv_collector = start_monitoring (pf_sort P) (createAll (pf_section P)) collector,
       sv_server =
         snd (server_start (pf_bind P (cfg_address server_cfg) (cfg_port server_cfg))
               (cfg_io_threads server_cfg) new_HookServer)\<rparr>)"

definition start_cache ::
  "'w Platform \<Rightarrow> ConfigLoader \<Rightarrow> 'w CacheManager \<Rightarrow> ('w, start_failure + 'w CacheManager) state" where
  "start_cache P cl cm = do {
     r \<leftarrow> init (pf_connect P) (getString_or ''REDIS_HOST'' ''127.0.0.1'' cl) (getInt_or ''REDIS_PORT'' 6380 cl)
            (getInt_or ''DB_POOL_SIZE'' 8 cl) (getString_or ''REDIS_PASS'' '''' cl) cm;
     case fst r of
       Inl e \<Rightarrow> ret (Inl (Threw e))
     | Inr _ \<Rightarrow> do {
         p \<leftarrow> ping (snd r);
         ret (case p of
                Inl e \<Rightarrow> Inl (Threw e)
              | Inr up \<Rightarrow> if \<not> up then Inl No_pong else Inr (snd r))
       }
   }"

definition main_start ::
  "'w Platform \<Rightarrow> 'w Singletons \<Rightarrow> ('w, start_failure + 'w Service) state" where
  "main_start P sg =
     (let cl = snd (load (pf_files P) (pf_environ P) ''config/config.ini'' ''.env''
                \<lparr>allow_missing_ini = False, allow_missing_env = True, override_from_environment = True,
                 env_keys_to_load = []\<rparr> (sg_config sg));
          lg = fst (set_config (pf_openable P) (log_settings cl) (sg_logger sg) (sg_sinks sg));
          db_cfg = db_settings cl
      in (case new_DBManager (pf_driver P) (cfg_minSize db_cfg) (cfg_maxSize db_cfg) (pf_tries P db_cfg) 0 of
            Inl e \<Rightarrow> ret (Inl (Threw e))
          | Inr db \<Rightarrow> do {
              c \<leftarrow> start_cache P cl (sg_cache sg);
              ret (case c of
                     Inl f \<Rightarrow> Inl f
                   | Inr cm \<Rightarrow>
                       (case make_pool (getInt_or ''THREAD_POOL_SIZE'' 4 cl) of
                          Inl e \<Rightarrow> Inl (Threw e)
                        | Inr pool \<Rightarrow>
                            (case new_AuthManager (Some (hybrid_repository (pf_json P) cm (pf_db P))) of
                               Inl e \<Rightarrow> Inl (Threw e)
                             | Inr (am, _) \<Rightarrow> Inr (assemble P cl lg db cm pool am (sg_collector sg)))))
            }))"

text \<open>What the hooks of the service work on.\<close>

definition service_gate :: "'w Platform \<Rightarrow> 'w Service \<Rightarrow> ('w, HybridAuthRepository) Gate" where
  "service_gate P sv =
     \<lparr>g_state = RedisStreamStateManager (sv_cache sv), g_auth = sv_auth sv,
      g_repo = hybrid_repository (pf_json P) (sv_cache sv) (pf_db P)\<rparr>"

section \<open>A service that starts is complete\<close>

lemma init_ready:
  assumes "run_state (init conn h p n pw new_CacheManager) w = ((Inr u, cm), w')"
  shows "\<exists>pw' R. conn h p pw' n = Inr R \<and> cm = ready R"
  using assms
  by (auto simp: init_def new_CacheManager_def ready_def State_Monad.bind_def
      split: if_splits sum.splits prod.splits)

lemma start_cache_ready:
  assumes "run_state (start_cache P cl new_CacheManager) w = (Inr cm, w')"
  shows "\<exists>h p pw n R. pf_connect P h p pw n = Inr R \<and> cm = ready R"
  using assms init_ready
  by (fastforce simp: start_cache_def State_Monad.bind_def split: prod.splits sum.splits if_splits)

lemma fresh_simps:
  "sg_config fresh_singletons = new_ConfigLoader" "sg_logger fresh_singletons = new_Logger"
  "sg_sinks fresh_singletons = \<lparr>console = '''', file_text = (\<lambda>_. '''')\<rparr>"
  "sg_cache fresh_singletons = new_CacheManager" "sg_collector fresh_singletons = new_MetricsCollector"
  by (simp_all add: fresh_singletons_def)

text \<open>The ways a start can end, given what each part reported.\<close>

lemma main_start_Inr:
  assumes "run_state (main_start P sg) w = (Inr sv, w')"
  obtains cl db cm pool where
    "cl = snd (load (pf_files P) (pf_environ P) ''config/config.ini'' ''.env'' default_load_options (sg_config sg))"
    "new_DBManager (pf_driver P) (cfg_minSize (db_settings cl)) (cfg_maxSize (db_settings cl))
       (pf_tries P (db_settings cl)) 0 = Inr db"
    "run_state (start_cache P cl (sg_cache sg)) w = (Inr cm, w')"
    "make_pool (getInt_or ''THREAD_POOL_SIZE'' 4 cl) = Inr pool"
    "sv = assemble P cl (fst (set_config (pf_openable P) (log_settings cl) (sg_logger sg) (sg_sinks sg)))
       db cm pool \<lparr>am_shutdown = False\<rparr> (sg_collector sg)"
  using assms
  by (auto simp: main_start_def default_load_options_def new_AuthManager_def State_Monad.bind_def Let_def
      split: sum.splits prod.splits)

definition nodes_ok :: "NodeConfig \<Rightarrow> bool" where
  "nodes_ok cfg \<longleftrightarrow>
     list_all (\<lambda>e. endpoint_isValid e \<and> host e \<noteq> ''0.0.0.0'') (rtmp_srt cfg @ http_hls cfg @ webrtc cfg)"

lemma fromJsonFile_nodes_ok:
  assumes "fromJsonFile J filepath txt
    \<lparr>allow_empty_endpoints = False, strict_port_rang = True, require_valid_hosts = True\<rparr> = Inr cfg"
  shows "nodes_ok cfg"
  using assms
  by (auto simp: nodes_ok_def fromJsonFile_def sum_bind_Inr validate_group_Inr validate_endpoints_Inr
      list_all_iff endpoint_isValid_def split: option.splits)

lemma load_nodes_ok: "nodes_ok (load_nodes P)"
proof (cases "fromJsonFile (pf_json P) ''config/nodes.json'' (pf_files P ''config/nodes.json'')
    \<lparr>allow_empty_endpoints = False, strict_port_rang = True, require_valid_hosts = True\<rparr>")
  case (Inr cfg)
  from fromJsonFile_nodes_ok [OF this] Inr show ?thesis
    by (simp add: load_nodes_def assign_NodeConfig_def nodes_ok_def)
qed (simp add: load_nodes_def nodes_ok_def new_NodeConfig_def)

lemma monitoring_providers:
  assumes "ranges_sort (\<lambda>p. metricsName (pv_kind p)) srt"
  shows "mset (mc_providers (foldl (\<lambda>c p. registerProvider srt (Some p) c) c ps)) = mset (mc_providers c) + mset ps
    \<and> mc_worker (foldl (\<lambda>c p. registerProvider srt (Some p) c) c ps) = mc_worker c
    \<and> (sorted (map (\<lambda>p. metricsName (pv_kind p)) (mc_providers c)) \<longrightarrow>
       sorted (map (\<lambda>p. metricsName (pv_kind p)) (mc_providers (foldl (\<lambda>c p. registerProvider srt (Some p) c) c ps))))"
proof (induction ps arbitrary: c)
  case (Cons p ps)
  show ?case
    using Cons.IH [of "registerProvider srt (Some p) c"] registerProvider_sorted [OF assms, of p c]
    by (simp add: registerProvider_def)
qed simp

text \<open>The thread pool of a started service.\<close>

lemma make_pool_fresh: "make_pool k = Inr pool \<Longrightarrow> \<exists>n > 0. pool = fresh_pool n 1000"
  by (auto simp: make_pool_def new_ThreadPool_def split: if_splits intro!: exI [of _ "nat k"])

lemma main_start_pool:
  assumes "run_state (main_start P fresh_singletons) w = (Inr sv, w')"
  shows "\<exists>n > 0. sv_pool sv = fresh_pool n 1000"
  by (rule main_start_Inr [OF assms, unfolded fresh_simps])
    (auto simp: assemble_def Let_def dest: make_pool_fresh)

text \<open>Its server runs exactly when the address could be bound: the result of \<open>start\<close> is not looked at.\<close>

lemma main_start_server:
  assumes "run_state (main_start P fresh_singletons) w = (Inr sv, w')"
  shows "hs_running (sv_server sv) = pf_bind P (cfg_address (server_settings (sv_config sv)))
        (cfg_port (server_settings (sv_config sv)))"
  by (rule main_start_Inr [OF assms, unfolded fresh_simps])
    (simp add: assemble_def Let_def server_start_def new_HookServer_def)

text \<open>
  C10. A service that starts is complete, whatever the configuration, the files, the database and the
  store answer: its cache manager is connected to a client the platform made, it has a pool with
  workers and a clean queue, its authentication is open, its scheduler runs over endpoints that are all
  valid, its log has one consistent configuration, the collector runs over the linked providers, sorted
  by name, and the HTTP server runs exactly when its address could be bound. A configuration that
  fails to load does not stop the start: the service then runs on the default settings.
\<close>

theorem started_service_complete:
  assumes "run_state (main_start P fresh_singletons) w = (Inr sv, w')"
    and "ranges_sort (\<lambda>p. metricsName (pv_kind p)) (pf_sort P)"
  shows "(\<exists>h p pw n R. pf_connect P h p pw n = Inr R \<and> sv_cache sv = ready R)
    \<and> (\<exists>n > 0. sv_pool sv = fresh_pool n 1000)
    \<and> \<not> am_shutdown (sv_auth sv)
    \<and> sched_running (sv_scheduler sv) \<and> nodes_ok (node_config (sv_scheduler sv))
    \<and> logger_ok (sv_logger sv)
    \<and> mc_worker (sv_collector sv)
    \<and> mset (mc_providers (sv_collector sv)) = mset (map inject (createAll (pf_section P)))
    \<and> sorted (map (\<lambda>p. metricsName (pv_kind p)) (mc_providers (sv_collector sv)))
    \<and> hs_running (sv_server sv) = pf_bind P (cfg_address (server_settings (sv_config sv)))
        (cfg_port (server_settings (sv_config sv)))
    \<and> (fst (load (pf_files P) (pf_environ P) ''config/config.ini'' ''.env'' default_load_options new_ConfigLoader)
       \<or> sv_config sv = new_ConfigLoader)"
proof -
  obtain cl db cm pool where s:
    "cl = snd (load (pf_files P) (pf_environ P) ''config/config.ini'' ''.env'' default_load_options new_ConfigLoader)"
    "run_state (start_cache P cl new_CacheManager) w = (Inr cm, w')"
    "make_pool (getInt_or ''THREAD_POOL_SIZE'' 4 cl) = Inr pool"
    "sv = assemble P cl (fst (set_config (pf_openable P) (log_settings cl) new_Logger
       \<lparr>console = '''', file_text = (\<lambda>_. '''')\<rparr>)) db cm pool \<lparr>am_shutdown = False\<rparr> new_MetricsCollector"
    by (rule main_start_Inr [OF assms(1), unfolded fresh_simps])
  have pool: "\<exists>n > 0. pool = fresh_pool n 1000" by (rule make_pool_fresh [OF s(3)])
  have default: "fst (load (pf_files P) (pf_environ P) ''config/config.ini'' ''.env'' default_load_options
      new_ConfigLoader) \<or> cl = new_ConfigLoader"
    unfolding s(1) by (auto simp: load_cases split: sum.splits)
  have mon: "mset (mc_providers (sv_collector sv)) = mset (map inject (createAll (pf_section P)))"
    "mc_worker (sv_collector sv)"
    "sorted (map (\<lambda>p. metricsName (pv_kind p)) (mc_providers (sv_collector sv)))"
    using monitoring_providers [OF assms(2), of new_MetricsCollector "map inject (createAll (pf_section P))"]
    by (simp_all add: s(4) assemble_def Let_def start_monitoring_def start_collector_def new_MetricsCollector_def)
  show ?thesis
    using start_cache_ready [OF s(2)] pool default mon load_nodes_ok [of P]
      logger_ok_set_config [of "pf_openable P" "log_settings cl"] main_start_server [OF assms(1)]
    by (simp add: s(4) assemble_def Let_def start_def new_Scheduler_def)
qed

text \<open>A platform without files and environment, on the memory server.\<close>

definition demo_platform :: "mem Platform" where
  "demo_platform =
     \<lparr>pf_files = (\<lambda>_. None), pf_environ = (\<lambda>_. None), pf_openable = (\<lambda>_. False), pf_driver = None,
      pf_tries = (\<lambda>_. [Connected 1, ConnectThrows]), pf_connect = (\<lambda>_ _ _ _. Inr mem_redis), pf_json = demo_json,
      pf_db = table_db demo_rows,
      pf_section = Some [Some (Some (new_provider ServerMetrics)), None, Some (Some (new_provider (CacheMetrics False)))],
      pf_sort = sort_key (\<lambda>p. metricsName (pv_kind p)), pf_bind = (\<lambda>_ _. True)\<rparr>"

lemma sort_key_ranges: "ranges_sort key (sort_key key)"
  by (simp add: ranges_sort_def)

lemma getters_empty:
  "getInt_or k i new_ConfigLoader = i" "getString_or k v new_ConfigLoader = v" "getBool_or k b new_ConfigLoader = b"
  by (simp_all add: getInt_or_def getString_or_def getBool_or_def new_ConfigLoader_def)

lemma demo_starts: "\<exists>sv. run_state (main_start demo_platform fresh_singletons) [] = (Inr sv, [])"
proof -
  have l: "snd (load (pf_files demo_platform) (pf_environ demo_platform) ''config/config.ini'' ''.env''
      default_load_options new_ConfigLoader) = new_ConfigLoader"
    by (simp add: demo_platform_def load_def next_config_def parseFileToMap_def default_load_options_def)
  have d: "new_DBManager (pf_driver demo_platform) (cfg_minSize (db_settings new_ConfigLoader))
      (cfg_maxSize (db_settings new_ConfigLoader)) tries 0 \<noteq> Inl e" for tries e
    by (simp add: demo_platform_def db_settings_def getters_empty new_DBManager_def)
  have c: "run_state (start_cache demo_platform new_ConfigLoader new_CacheManager) [] = (Inr (ready mem_redis), [])"
    by (simp add: start_cache_def init_def new_CacheManager_def demo_platform_def getters_empty ping_def ready_def
        State_Monad.bind_def run_mem mem_rep.simps)
  have m: "make_pool (getInt_or ''THREAD_POOL_SIZE'' 4 new_ConfigLoader) = Inr (fresh_pool 4 1000)"
    by (simp add: make_pool_def new_ThreadPool_def getters_empty)
  show ?thesis
    unfolding main_start_def fresh_simps Let_def default_load_options_def [symmetric] l
    using d c m by (auto simp: State_Monad.bind_def new_AuthManager_def split: sum.splits)
qed

theorem started_service_complete_witness:
  "\<exists>sv. run_state (main_start demo_platform fresh_singletons) [] = (Inr sv, [])
     \<and> sched_running (sv_scheduler sv) \<and> hs_running (sv_server sv) \<and> sv_config sv = new_ConfigLoader"
proof -
  obtain sv where sv: "run_state (main_start demo_platform fresh_singletons) [] = (Inr sv, [])"
    using demo_starts by blast
  have s: "ranges_sort (\<lambda>p. metricsName (pv_kind p)) (pf_sort demo_platform)"
    by (simp add: demo_platform_def sort_key_ranges)
  have "\<not> fst (load (pf_files demo_platform) (pf_environ demo_platform) ''config/config.ini'' ''.env''
      default_load_options new_ConfigLoader)"
    by (simp add: demo_platform_def load_def next_config_def parseFileToMap_def default_load_options_def)
  with started_service_complete [OF sv s] sv show ?thesis by (auto simp: demo_platform_def)
qed

section \<open>The first hook of a started service\<close>

text \<open>The start touches neither the keyspace nor the rows of the database.\<close>

context gate_backend
begin

lemma ping_frame:
  assumes "run_state (redis_exec R PING) w = (x, w')"
  shows "view w' = view w \<and> rows w' = rows w"
  using outcomeD [OF exec_both, of w PING] assms by (auto split: sum.splits prod.splits)

lemma init_frame:
  assumes "\<And>h p pw n R'. conn h p pw n = Inr R' \<Longrightarrow> R' = R"
    and "run_state (init conn h p n pw new_CacheManager) w = (x, w')"
  shows "view w' = view w \<and> rows w' = rows w"
proof (cases "conn h p (if pw = '''' then None else Some pw) n")
  case (Inr R')
  with assms(1) have "R' = R" by blast
  then show ?thesis
    using assms(2) Inr ping_frame
    by (auto simp: init_def new_CacheManager_def State_Monad.bind_def split: prod.splits)
qed (use assms(2) in \<open>auto simp: init_def new_CacheManager_def\<close>)

lemma ready_ping_frame:
  assumes "run_state (ping (ready R)) w = (x, w')"
  shows "view w' = view w \<and> rows w' = rows w"
  using assms ping_frame by (auto simp: ping_def State_Monad.bind_def split: prod.splits)

lemma start_cache_frame:
  assumes conn: "\<And>h p pw n R'. pf_connect P h p pw n = Inr R' \<Longrightarrow> R' = R"
    and run: "run_state (start_cache P cl new_CacheManager) w = (r, w')"
  shows "view w' = view w \<and> rows w' = rows w \<and> (\<forall>cm. r = Inr cm \<longrightarrow> cm = ready R)"
proof -
  let ?init = "init (pf_connect P) (getString_or ''REDIS_HOST'' ''127.0.0.1'' cl) (getInt_or ''REDIS_PORT'' 6380 cl)
      (getInt_or ''DB_POOL_SIZE'' 8 cl) (getString_or ''REDIS_PASS'' '''' cl) new_CacheManager"
  obtain x cm v where i: "run_state ?init w = ((x, cm), v)" by (metis prod.collapse)
  have v: "view v = view w \<and> rows v = rows w"
    using init_frame [OF _ i] conn by blast
  show ?thesis
  proof (cases x)
    case (Inl e)
    then show ?thesis using run i v by (auto simp: start_cache_def State_Monad.bind_def)
  next
    case (Inr u)
    then have "cm = ready R" using init_ready [OF i [unfolded Inr]] conn by auto
    then show ?thesis
      using run i v Inr ready_ping_frame [of v]
      by (auto simp: start_cache_def State_Monad.bind_def split: prod.splits sum.splits if_splits)
  qed
qed

lemma main_start_frame:
  assumes "\<And>h p pw n R'. pf_connect P h p pw n = Inr R' \<Longrightarrow> R' = R"
  shows "outcome (\<lambda>w. (view w, rows w)) (K, T) (main_start P fresh_singletons)
    (\<lambda>r LU. LU = (K, T) \<and> (\<forall>sv. r = Inr sv \<longrightarrow>
       sv_cache sv = ready R \<and> nodes_ok (node_config (sv_scheduler sv))))"
proof (rule outcomeI)
  have frame: "view v' = view v \<and> rows v' = rows v \<and> (\<forall>cm. x = Inr cm \<longrightarrow> cm = ready R)"
    if "run_state (start_cache P cl new_CacheManager) v = (x, v')" for cl v x v'
    using start_cache_frame [of P cl v x v'] assms that by blast
  fix w assume w: "(view w, rows w) = (K, T)"
  obtain r w' where r: "run_state (main_start P fresh_singletons) w = (r, w')" by fastforce
  have "view w' = view w \<and> rows w' = rows w"
    using r
    by (auto simp: main_start_def fresh_simps State_Monad.bind_def Let_def
        split: sum.splits prod.splits dest: frame)
  moreover have "sv_cache sv = ready R \<and> nodes_ok (node_config (sv_scheduler sv))" if "r = Inr sv" for sv
    by (rule main_start_Inr [OF r [unfolded that], unfolded fresh_simps])
      (use frame load_nodes_ok [of P] in
        \<open>auto simp: assemble_def Let_def start_def new_Scheduler_def\<close>)
  ultimately show "(view (snd (run_state (main_start P fresh_singletons) w)),
      rows (snd (run_state (main_start P fresh_singletons) w))) = (K, T)
    \<and> (\<forall>sv. fst (run_state (main_start P fresh_singletons) w) = Inr sv \<longrightarrow>
        sv_cache sv = ready R \<and> nodes_ok (node_config (sv_scheduler sv)))"
    using w r by simp
qed

end

text \<open>A task made for valid nodes can be registered.\<close>

lemma publish_registrable:
  assumes "nodes_ok (node_config sc)" "colon_free c" "reasonable_ms (to_ms now_ns)"
    and "int (card (players \<rho>)) + 1 < 2 ^ 63" "\<And>u. \<rho> (s, c) = Some u \<Longrightarrow> task_type u = PUBLISHER"
  shows "registrable \<rho> (publish_task s c tok proto now_ns sc)"
proof -
  have "int32_range (port (ns ! (k mod length ns)))" if "ns \<noteq> []" "list_all endpoint_isValid ns" for ns and k :: nat
  proof -
    have "ns ! (k mod length ns) \<in> set ns" using that(1) by simp
    then show ?thesis using that(2) by (auto simp: list_all_iff endpoint_isValid_def int32_range_def)
  qed
  moreover have "list_all endpoint_isValid (rtmp_srt (node_config sc))"
    "list_all endpoint_isValid (http_hls (node_config sc))"
    using assms(1) by (auto simp: nodes_ok_def list_all_iff)
  ultimately have "int32_range (snd (fst (selectBestNode proto sc)))"
    by (auto simp: selectBestNode_def Let_def int32_range_def)
  then show ?thesis
    using assms(2-5)
    by (auto simp: registrable_def storable_def publish_task_def createTask_def default_task_def Let_def
        split: prod.splits option.splits)
qed

end
