(* ===== verification/Gate_Shutdown.thy ===== *)
theory Gate_Shutdown
  imports Gate_Main
begin

text \<open>
  The end of \<open>main\<close> (\<open>src/main/main.cpp\<close>): the wait for a signal, and the shutdown as a labelled step
  relation of the main thread and the thread pool. The main thread stops the collector, the HTTP
  server and the scheduler, destroys the authentication manager, then stops and joins the pool and
  shuts the connection pool down. The workers of the pool move at any time, and hooks submit tasks
  while the HTTP server runs, from the moment the service is ready. When the call that stops the
  server returns, its threads are joined and no submission is under way; that it returns is the matter
  of \<open>Hook_Listener\<close>.
\<close>

section \<open>Waiting for the signal\<close>

text \<open>
  The main thread waits on a condition variable until the flag \<open>running\<close> is cleared. The handler of a
  signal clears the flag and notifies, and takes no mutex: it may come between the check of the flag
  and the moment the waiting thread is registered with the condition variable. A notification wakes a
  thread only when it sleeps; the library also permits a wake-up without one.
\<close>

datatype wait_pc = Checking | Entering | Sleeping | Awake

record ShutdownContext =
  running_flag :: bool
  waiter :: wait_pc
  handlers :: nat

text \<open>\<open>handlers\<close> counts the handlers that have cleared the flag and not yet notified.\<close>

definition g_ctx :: ShutdownContext where
  "g_ctx = \<lparr>running_flag = True, waiter = Checking, handlers = 0\<rparr>"

datatype wait_event = Found_running | Found_stopped | Slept | Cleared | Notified | Spurious

inductive wait_step :: "ShutdownContext \<Rightarrow> wait_event \<Rightarrow> ShutdownContext \<Rightarrow> bool" where
  found_running: "\<lbrakk>waiter g = Checking; running_flag g\<rbrakk> \<Longrightarrow> wait_step g Found_running (g\<lparr>waiter := Entering\<rparr>)"
| found_stopped: "\<lbrakk>waiter g = Checking; \<not> running_flag g\<rbrakk> \<Longrightarrow> wait_step g Found_stopped (g\<lparr>waiter := Awake\<rparr>)"
| slept: "waiter g = Entering \<Longrightarrow> wait_step g Slept (g\<lparr>waiter := Sleeping\<rparr>)"
| cleared: "wait_step g Cleared (g\<lparr>running_flag := False, handlers := handlers g + 1\<rparr>)"
| notified: "0 < handlers g \<Longrightarrow> wait_step g Notified
    (g\<lparr>handlers := handlers g - 1, waiter := (if waiter g = Sleeping then Checking else waiter g)\<rparr>)"
| spurious: "waiter g = Sleeping \<Longrightarrow> wait_step g Spurious (g\<lparr>waiter := Checking\<rparr>)"

text \<open>
  The main thread never leaves the wait before a signal; and a signal can be lost: there is a run in
  which a handler has finished and only another signal or a spurious wake-up lets the main thread go on.
\<close>

definition inv_wait :: "wait_event list \<Rightarrow> ShutdownContext \<Rightarrow> bool" where
  "inv_wait es g \<longleftrightarrow> (running_flag g \<longleftrightarrow> Cleared \<notin> set es) \<and> (waiter g = Awake \<longrightarrow> \<not> running_flag g)"

interpretation waiting: history_invariant g_ctx wait_step inv_wait
proof
  fix es g e h assume "inv_wait es g" "wait_step g e h"
  from this(2,1) show "inv_wait (es @ [e]) h"
    by (induction rule: wait_step.induct) (auto simp: inv_wait_def)
qed (simp add: inv_wait_def g_ctx_def)

theorem no_shutdown_without_signal:
  assumes "run wait_step g_ctx es g" "waiter g = Awake"
  shows "Cleared \<in> set es"
  using waiting.inv_run [OF assms(1)] assms(2) by (auto simp: inv_wait_def)

theorem signal_can_be_lost:
  "\<exists>g. run wait_step g_ctx [Found_running, Cleared, Notified, Slept] g
    \<and> \<not> running_flag g \<and> handlers g = 0 \<and> (\<forall>e h. wait_step g e h \<longrightarrow> e = Cleared \<or> e = Spurious)"
proof -
  let ?g = "\<lparr>running_flag = False, waiter = Sleeping, handlers = 0\<rparr>"
  have "run wait_step g_ctx [Found_running, Cleared, Notified, Slept] ?g"
    using found_running [of g_ctx] cleared [of "g_ctx\<lparr>waiter := Entering\<rparr>"]
      notified [of "g_ctx\<lparr>waiter := Entering, running_flag := False, handlers := 1\<rparr>"]
      slept [of "g_ctx\<lparr>waiter := Entering, running_flag := False\<rparr>"]
    by (simp add: g_ctx_def) (blast intro: run_Cons run_nil)
  moreover have "e = Cleared \<or> e = Spurious" if "wait_step ?g e h" for e h
    using that by (auto elim: wait_step.cases)
  ultimately show ?thesis by (intro exI [of _ ?g]) auto
qed

section \<open>Steps\<close>

datatype down_pc =
    At_metrics | At_server | At_scheduler | At_auth | At_pool_flag | At_pool_signal | At_pool_join | At_db | At_end

record 'w Down =
  dn_service :: "'w Service"
  dn_at :: down_pc

datatype down_event =
    Pool "unit pool_event" | Metrics_stopped | Server_stopped | Scheduler_destroyed | Auth_destroyed
  | All_signalled | Pool_joined | Db_shut

abbreviation dn_pool :: "'w Down \<Rightarrow> unit ThreadPool" where
  "dn_pool d \<equiv> sv_pool (dn_service d)"

definition set_pool :: "unit ThreadPool \<Rightarrow> 'w Down \<Rightarrow> 'w Down" where
  "set_pool p d = d\<lparr>dn_service := (dn_service d)\<lparr>sv_pool := p\<rparr>\<rparr>"

definition begin_shutdown :: "'w Service \<Rightarrow> 'w Down" where
  "begin_shutdown sv = \<lparr>dn_service = sv, dn_at = At_metrics\<rparr>"

inductive down_step :: "'w Down \<Rightarrow> down_event \<Rightarrow> 'w Down \<Rightarrow> bool" where
  metrics: "dn_at d = At_metrics
    \<Longrightarrow> down_step d Metrics_stopped
          (d\<lparr>dn_service := (dn_service d)\<lparr>sv_collector := stop_collector (sv_collector (dn_service d))\<rparr>,
             dn_at := At_server\<rparr>)"
| server: "\<lbrakk>dn_at d = At_server; holder (dn_pool d) = None\<rbrakk>
    \<Longrightarrow> down_step d Server_stopped
          (d\<lparr>dn_service := (dn_service d)\<lparr>sv_server := server_stop (sv_server (dn_service d))\<rparr>,
             dn_at := At_scheduler\<rparr>)"
| scheduler: "dn_at d = At_scheduler
    \<Longrightarrow> down_step d Scheduler_destroyed
          (d\<lparr>dn_service := (dn_service d)\<lparr>sv_scheduler := snd (stop (sv_scheduler (dn_service d)))\<rparr>,
             dn_at := At_auth\<rparr>)"
| auth: "dn_at d = At_auth
    \<Longrightarrow> down_step d Auth_destroyed
          (d\<lparr>dn_service := (dn_service d)\<lparr>sv_auth := destroy_AuthManager (sv_auth (dn_service d))\<rparr>,
             dn_at := At_pool_flag\<rparr>)"
| pool_flag: "\<lbrakk>dn_at d = At_pool_flag; client_step (dn_pool d) Stop_called p\<rbrakk>
    \<Longrightarrow> down_step d (Pool Stop_called) ((set_pool p d)\<lparr>dn_at := At_pool_signal\<rparr>)"
| pool_signal: "\<lbrakk>dn_at d = At_pool_signal; client_step (dn_pool d) (Stop_signalled i) p\<rbrakk>
    \<Longrightarrow> down_step d (Pool (Stop_signalled i)) (set_pool p d)"
| pool_signalled: "\<lbrakk>dn_at d = At_pool_signal; requested (dn_pool d) = length (workers (dn_pool d))\<rbrakk>
    \<Longrightarrow> down_step d All_signalled (d\<lparr>dn_at := At_pool_join\<rparr>)"
| pool_join: "\<lbrakk>dn_at d = At_pool_join; joined (dn_pool d)\<rbrakk>
    \<Longrightarrow> down_step d Pool_joined
          ((set_pool (reset_stats ((dn_pool d)\<lparr>workers := []\<rparr>)) d)\<lparr>dn_at := At_db\<rparr>)"
| db: "dn_at d = At_db
    \<Longrightarrow> down_step d Db_shut
          (d\<lparr>dn_service := (dn_service d)\<lparr>sv_db := db_shutdown (sv_db (dn_service d))\<rparr>, dn_at := At_end\<rparr>)"
| work: "worker_step (dn_pool d) e p \<Longrightarrow> down_step d (Pool e) (set_pool p d)"
| submit: "\<lbrakk>hs_running (sv_server (dn_service d)); client_step (dn_pool d) e p;
     e \<noteq> Stop_called; \<forall>i. e \<noteq> Stop_signalled i\<rbrakk>
    \<Longrightarrow> down_step d (Pool e) (set_pool p d)"

lemma set_pool_simps [simp]:
  "sv_pool (dn_service (set_pool p d)) = p" "dn_at (set_pool p d) = dn_at d"
  "sv_server (dn_service (set_pool p d)) = sv_server (dn_service d)"
  "sv_collector (dn_service (set_pool p d)) = sv_collector (dn_service d)"
  "sv_scheduler (dn_service (set_pool p d)) = sv_scheduler (dn_service d)"
  "sv_auth (dn_service (set_pool p d)) = sv_auth (dn_service d)"
  "sv_db (dn_service (set_pool p d)) = sv_db (dn_service d)"
  by (simp_all add: set_pool_def)

section \<open>What has happened at each point\<close>

fun pool_events :: "down_event list \<Rightarrow> unit pool_event list" where
  "pool_events [] = []"
| "pool_events (Pool e # es) = e # pool_events es"
| "pool_events (_ # es) = pool_events es"

lemma pool_events_append [simp]: "pool_events (es @ fs) = pool_events es @ pool_events fs"
  by (induction es rule: pool_events.induct) simp_all

text \<open>The steps of the main thread in their order.\<close>

fun rank :: "down_pc \<Rightarrow> nat" where
  "rank At_metrics = 0" | "rank At_server = 1" | "rank At_scheduler = 2" | "rank At_auth = 3"
| "rank At_pool_flag = 4" | "rank At_pool_signal = 5" | "rank At_pool_join = 6" | "rank At_db = 7" | "rank At_end = 8"

definition inv_parts :: "down_event list \<Rightarrow> 'w Down \<Rightarrow> bool" where
  "inv_parts es d \<longleftrightarrow>
     (holder (dn_pool d) \<noteq> None \<longrightarrow> hs_running (sv_server (dn_service d)))
     \<and> (0 < rank (dn_at d) \<longrightarrow> \<not> mc_worker (sv_collector (dn_service d)))
     \<and> (1 < rank (dn_at d) \<longrightarrow> \<not> hs_running (sv_server (dn_service d)) \<and> holder (dn_pool d) = None)
     \<and> (2 < rank (dn_at d) \<longrightarrow> \<not> sched_running (sv_scheduler (dn_service d)))
     \<and> (3 < rank (dn_at d) \<longrightarrow> am_shutdown (sv_auth (dn_service d)))
     \<and> (4 < rank (dn_at d) \<longleftrightarrow> stopped (dn_pool d))
     \<and> (5 < rank (dn_at d) \<longrightarrow> requested (dn_pool d) = length (workers (dn_pool d)) \<or> 6 < rank (dn_at d))
     \<and> (7 < rank (dn_at d) \<longrightarrow> db_shut (sv_db (dn_service d)))"

text \<open>Up to the join the pool has made a run of its own; at the join all its workers had left.\<close>

definition inv_pool :: "nat \<Rightarrow> nat \<Rightarrow> down_event list \<Rightarrow> 'w Down \<Rightarrow> bool" where
  "inv_pool n m es d \<longleftrightarrow>
     (if rank (dn_at d) \<le> 6 then run pool_step (fresh_pool n m) (pool_events es) (dn_pool d)
      else \<exists>p. run pool_step (fresh_pool n m) (pool_events es) p \<and> joined p
        \<and> dn_pool d = reset_stats (p\<lparr>workers := []\<rparr>))"

lemma worker_frame:
  assumes "worker_step p e q"
  shows "holder q = holder p \<and> stopped q = stopped p \<and> requested q = requested p
    \<and> length (workers q) = length (workers p) \<and> workers p \<noteq> []"
  using assms by (induction rule: worker_step.induct) auto

lemma db_shutdown_shut: "db_shut (db_shutdown d)"
proof -
  have "db_shut (drop_idle cs d) = db_shut d" for cs d
    by (induction cs d rule: drop_idle.induct) (simp_all add: markConnectionDestroyed_def)
  then show ?thesis by (simp add: db_shutdown_def)
qed


definition inv_down :: "nat \<Rightarrow> nat \<Rightarrow> down_event list \<Rightarrow> 'w Down \<Rightarrow> bool" where
  "inv_down n m es d \<longleftrightarrow> inv_parts es d \<and> inv_pool n m es d"

text \<open>What the submissions of the hooks leave alone.\<close>

lemma submit_frame:
  assumes "client_step p e q" "e \<noteq> Stop_called" "\<forall>i. e \<noteq> Stop_signalled i"
  shows "stopped q = stopped p \<and> requested q = requested p \<and> workers q = workers p"
  using assms by (induction rule: client_step.induct) (auto simp: submit_rejected_def)

lemma parts_step:
  assumes "inv_parts es d" "down_step d e d'"
  shows "inv_parts (es @ [e]) d'"
  using assms(2,1)
proof (induction rule: down_step.induct)
  case (pool_flag d p)
  then show ?case by (auto simp: inv_parts_def elim: client_step.cases)
next
  case (pool_signal d i p)
  then show ?case by (auto simp: inv_parts_def elim: client_step.cases)
next
  case (work d e p)
  then show ?case using worker_frame [OF work.hyps] by (simp add: inv_parts_def)
next
  case (submit d e p)
  then show ?case using submit_frame [OF submit.hyps(2-4)] by (auto simp: inv_parts_def)
qed (auto simp: inv_parts_def stop_collector_def server_stop_def stop_def destroy_AuthManager_def
    reset_stats_def db_shutdown_shut)

lemma pool_run_step:
  assumes "inv_pool n m es d" "rank (dn_at d) \<le> 6" "rank (dn_at d') \<le> 6" "pool_step (dn_pool d) e (dn_pool d')"
  shows "inv_pool n m (es @ [Pool e]) d'"
  using assms by (simp add: inv_pool_def run_snoc)

lemma pool_inv_step:
  assumes "inv_parts es d" "inv_pool n m es d" "down_step d e d'"
  shows "inv_pool n m (es @ [e]) d'"
  using assms(3,1,2)
proof (induction rule: down_step.induct)
  case (pool_flag d p)
  then show ?case by (intro pool_run_step) (auto simp: pool_step_def)
next
  case (pool_signal d i p)
  then show ?case by (intro pool_run_step) (auto simp: pool_step_def)
next
  case (work d e p)
  have "rank (dn_at d) \<le> 6"
  proof (rule ccontr)
    assume "\<not> rank (dn_at d) \<le> 6"
    then have "workers (dn_pool d) = []" using work.prems(2) by (auto simp: inv_pool_def reset_stats_def)
    then show False using worker_frame [OF work.hyps] by simp
  qed
  then show ?case using work by (intro pool_run_step) (auto simp: pool_step_def)
next
  case (submit d e p)
  then have "rank (dn_at d) \<le> 1" by (auto simp: inv_parts_def not_le)
  then show ?case using submit by (intro pool_run_step) (auto simp: pool_step_def)
qed (auto simp: inv_pool_def)

interpretation shutting: history_invariant "begin_shutdown sv" down_step
    "\<lambda>es d. sv_pool sv = fresh_pool n m \<longrightarrow> inv_down n m es d" for sv n m
proof
  show "sv_pool sv = fresh_pool n m \<longrightarrow> inv_down n m [] (begin_shutdown sv)"
    by (simp add: inv_down_def inv_parts_def inv_pool_def begin_shutdown_def fresh_pool_def)
qed (use parts_step pool_inv_step in \<open>blast intro: inv_down_def [THEN iffD2] dest: inv_down_def [THEN iffD1]\<close>)

lemma shutdown_inv:
  assumes "sv_pool sv = fresh_pool n m" "run down_step (begin_shutdown sv) es d"
  shows "inv_parts es d" "inv_pool n m es d"
  using shutting.inv_run [OF assms(2), of n m] assms(1) by (auto simp: inv_down_def)

section \<open>The end is reached\<close>

text \<open>From every point of the shutdown the main thread can go on, the workers and hooks helping.\<close>

lemma run_work:
  assumes "run worker_step (dn_pool d) es p"
  shows "run down_step d (map Pool es) (set_pool p d)"
  using assms
proof (induction rule: run.induct)
  case run_nil
  then show ?case by (simp add: set_pool_def)
next
  case (run_snoc es p e q)
  have "down_step (set_pool p d) (Pool e) (set_pool q (set_pool p d))"
    using run_snoc.hyps by (intro work) simp
  then show ?case using run_snoc.IH by (auto simp: set_pool_def intro: run.run_snoc)
qed

lemma inv_down_run:
  assumes "run down_step d fs d'" "inv_down n m es d"
  shows "inv_down n m (es @ fs) d'"
  using assms
proof (induction rule: run.induct)
  case (run_snoc fs t e u)
  then show ?case
    using parts_step [of "es @ fs" t e u] pool_inv_step [of "es @ fs" t n m e u] by (simp add: inv_down_def)
qed simp

lemma one_step: "down_step d e d' \<Longrightarrow> P d' \<Longrightarrow> \<exists>fs d'. run down_step d fs d' \<and> P d'"
  by (blast intro: run_one)

lemma signal_all:
  assumes "dn_at d = At_pool_signal" "stopped (dn_pool d)" "requested (dn_pool d) \<le> length (workers (dn_pool d))"
  shows "\<exists>fs d'. run down_step d fs d' \<and> dn_at d' = At_pool_join"
  using assms
proof (induction "length (workers (dn_pool d)) - requested (dn_pool d)" arbitrary: d)
  case 0
  then have "down_step d All_signalled (d\<lparr>dn_at := At_pool_join\<rparr>)" by (intro pool_signalled) auto
  then show ?case by (rule one_step) simp
next
  case (Suc k)
  let ?d = "set_pool (request_stop (dn_pool d)) d"
  have "down_step d (Pool (Stop_signalled (requested (dn_pool d)))) ?d"
    using Suc.hyps(2) Suc.prems by (intro pool_signal signal) auto
  moreover have "\<exists>fs d'. run down_step ?d fs d' \<and> dn_at d' = At_pool_join"
    using Suc.hyps(2) Suc.prems by (intro Suc.hyps(1)) auto
  ultimately show ?case by (blast intro: run_Cons)
qed

lemma progress:
  assumes inv: "inv_down n m es d" and "dn_at d \<noteq> At_end"
  shows "\<exists>fs d'. run down_step d fs d' \<and> rank (dn_at d') = Suc (rank (dn_at d))"
proof (cases "dn_at d")
  case At_metrics
  from down_step.metrics [OF this] show ?thesis by (rule one_step) (simp add: At_metrics)
next
  case At_server
  have idle: "\<exists>fs d'. run down_step t fs d' \<and> rank (dn_at d') = 2"
    if "dn_at t = At_server" "holder (dn_pool t) = None" for t
    using down_step.server [OF that] by (rule one_step) simp
  show ?thesis
  proof (cases "holder (dn_pool d)")
    case None
    with idle [OF At_server] show ?thesis by (simp add: At_server numeral_2_eq_2)
  next
    case (Some j)
    let ?d = "set_pool (submit_push j (dn_pool d)) d"
    have "hs_running (sv_server (dn_service d))" using inv Some by (simp add: inv_down_def inv_parts_def)
    then have "down_step d (Pool (Accepted j)) ?d" using Some by (intro submit push) auto
    moreover have "\<exists>fs d'. run down_step ?d fs d' \<and> rank (dn_at d') = 2" by (rule idle) (simp_all add: At_server)
    ultimately have "\<exists>fs d'. run down_step d fs d' \<and> rank (dn_at d') = 2" by (blast intro: run_Cons)
    then show ?thesis by (simp add: At_server numeral_2_eq_2)
  qed
next
  case At_scheduler
  from down_step.scheduler [OF this] show ?thesis by (rule one_step) (simp add: At_scheduler)
next
  case At_auth
  from down_step.auth [OF this] show ?thesis by (rule one_step) (simp add: At_auth)
next
  case At_pool_flag
  then have "\<not> stopped (dn_pool d)" using inv by (simp add: inv_down_def inv_parts_def)
  from down_step.pool_flag [OF At_pool_flag stop [OF this]] show ?thesis by (rule one_step) (simp add: At_pool_flag)
next
  case At_pool_signal
  have "inv_bound n m (pool_events es) (dn_pool d)"
    using inv At_pool_signal pool_bound.inv_run by (auto simp: inv_down_def inv_pool_def)
  then have "\<exists>fs d'. run down_step d fs d' \<and> dn_at d' = At_pool_join"
    using inv At_pool_signal by (intro signal_all) (auto simp: inv_down_def inv_parts_def inv_bound_def)
  then obtain fs d' where "run down_step d fs d'" "dn_at d' = At_pool_join" by blast
  then show ?thesis by (intro exI [of _ fs] exI [of _ d']) (simp add: At_pool_signal)
next
  case At_pool_join
  have "draining (dn_pool d)" using inv At_pool_join by (auto simp: inv_down_def inv_parts_def draining_def)
  then obtain fs p where p: "run worker_step (dn_pool d) fs p" "joined p" using draining_ends by blast
  let ?d = "set_pool p d"
  have "down_step ?d Pool_joined ((set_pool (reset_stats ((dn_pool ?d)\<lparr>workers := []\<rparr>)) ?d)\<lparr>dn_at := At_db\<rparr>)"
    using p(2) At_pool_join by (intro pool_join) auto
  from run_snoc [OF run_work [OF p(1)] this] show ?thesis by (intro exI conjI) (assumption, simp add: At_pool_join)
next
  case At_db
  from down_step.db [OF this] show ?thesis by (rule one_step) (simp add: At_db)
qed (use assms(2) in simp)

lemma end_reachable:
  assumes "inv_down n m es d"
  shows "\<exists>fs d'. run down_step d fs d' \<and> dn_at d' = At_end"
  using assms
proof (induction "8 - rank (dn_at d)" arbitrary: es d rule: less_induct)
  case less
  show ?case
  proof (cases "dn_at d = At_end")
    case False
    then obtain fs d' where f: "run down_step d fs d'" "rank (dn_at d') = Suc (rank (dn_at d))"
      using progress [OF less.prems] by blast
    have "8 - rank (dn_at d') < 8 - rank (dn_at d)" using False f(2) by (cases "dn_at d") auto
    from less.hyps [OF this inv_down_run [OF f(1) less.prems]] show ?thesis
      using run_append [OF _ f(1)] by blast
  qed (blast intro: run_nil)
qed

section \<open>Properties\<close>

text \<open>
  C6. The shutdown of a started service, interleaved in any way with the workers of the pool and with
  hooks that still come in while the server runs: from every point it has reached, the main thread can
  be brought to the end, once the clients have let the server stop; and there the collector, the server and the clean-up thread are stopped, the
  connection pool is shut down, no task is queued or half submitted, and every task the pool ever
  accepted has run exactly once.
\<close>

theorem shutdown_complete:
  assumes "run_state (main_start P fresh_singletons) w = (Inr sv, w')"
    and "run down_step (begin_shutdown sv) es d"
  shows "(\<exists>fs d'. run down_step d fs d' \<and> dn_at d' = At_end)
    \<and> (dn_at d = At_end \<longrightarrow>
        \<not> mc_worker (sv_collector (dn_service d)) \<and> \<not> hs_running (sv_server (dn_service d))
        \<and> \<not> sched_running (sv_scheduler (dn_service d)) \<and> db_shut (sv_db (dn_service d))
        \<and> workers (dn_pool d) = [] \<and> tasks (dn_pool d) = [] \<and> holder (dn_pool d) = None
        \<and> mset (map fst (ran_of (pool_events es))) = mset (accepted_of (pool_events es)))"
proof -
  obtain n where n: "0 < n" "sv_pool sv = fresh_pool n 1000" using main_start_pool [OF assms(1)] by blast
  note inv = shutdown_inv [OF n(2) assms(2)]
  have "\<exists>fs d'. run down_step d fs d' \<and> dn_at d' = At_end"
    using inv by (intro end_reachable [of n 1000 es d]) (simp add: inv_down_def)
  moreover have "workers (dn_pool d) = [] \<and> tasks (dn_pool d) = [] \<and> holder (dn_pool d) = None
      \<and> mset (map fst (ran_of (pool_events es))) = mset (accepted_of (pool_events es))" if "dn_at d = At_end"
    using inv(2) that joined_all_ran [OF n(1)] by (auto simp: inv_pool_def reset_stats_def)
  ultimately show ?thesis using inv(1) by (auto simp: inv_parts_def)
qed

theorem shutdown_complete_witness:
  "\<exists>sv fs d. run_state (main_start demo_platform fresh_singletons) [] = (Inr sv, [])
     \<and> run down_step (begin_shutdown sv) fs d \<and> dn_at d = At_end
     \<and> tasks (dn_pool d) = [] \<and> db_shut (sv_db (dn_service d))"
proof -
  obtain sv where sv: "run_state (main_start demo_platform fresh_singletons) [] = (Inr sv, [])"
    using demo_starts by blast
  from shutdown_complete [OF sv run_nil] obtain fs d where
    d: "run down_step (begin_shutdown sv) fs d" "dn_at d = At_end" by blast
  from shutdown_complete [OF sv d(1)] d sv show ?thesis by blast
qed

text \<open>
  C17. The authentication manager and the scheduler are destroyed before the pool is drained: in a
  service whose server listens, a hook can submit any task, and a worker take and run it only after the
  two objects it refers to are gone.
\<close>

theorem auth_task_outlives_manager:
  assumes "run_state (main_start P fresh_singletons) w = (Inr sv, w')" "hs_running (sv_server sv)"
  shows "\<exists>d. run down_step (begin_shutdown sv)
      [Pool (Entered j), Pool (Accepted j), Metrics_stopped, Server_stopped, Scheduler_destroyed,
       Auth_destroyed, Pool (Took 0 j), Pool (Ran_job 0 j (job_result j))] d
    \<and> am_shutdown (sv_auth (dn_service d))"
proof -
  obtain n where n: "0 < n" "sv_pool sv = fresh_pool n 1000" using main_start_pool [OF assms(1)] by blast
  let ?d0 = "begin_shutdown sv"
  let ?d1 = "set_pool ((dn_pool ?d0)\<lparr>holder := Some j\<rparr>) ?d0"
  let ?d2 = "set_pool (submit_push j (dn_pool ?d1)) ?d1"
  let ?d3 = "?d2\<lparr>dn_service := (dn_service ?d2)\<lparr>sv_collector := stop_collector (sv_collector (dn_service ?d2))\<rparr>,
     dn_at := At_server\<rparr>"
  let ?d4 = "?d3\<lparr>dn_service := (dn_service ?d3)\<lparr>sv_server := server_stop (sv_server (dn_service ?d3))\<rparr>,
     dn_at := At_scheduler\<rparr>"
  let ?d5 = "?d4\<lparr>dn_service := (dn_service ?d4)\<lparr>sv_scheduler := snd (stop (sv_scheduler (dn_service ?d4)))\<rparr>,
     dn_at := At_auth\<rparr>"
  let ?d6 = "?d5\<lparr>dn_service := (dn_service ?d5)\<lparr>sv_auth := destroy_AuthManager (sv_auth (dn_service ?d5))\<rparr>,
     dn_at := At_pool_flag\<rparr>"
  let ?d7 = "set_pool ((dn_pool ?d6)\<lparr>tasks := [], workers := (workers (dn_pool ?d6))[0 := Running j]\<rparr>) ?d6"
  let ?d8 = "set_pool (worker_execute 0 j (dn_pool ?d7)) ?d7"
  have f: "tasks (sv_pool sv) = []" "workers (sv_pool sv) = replicate n Blocked" "holder (sv_pool sv) = None"
    "\<not> stopped (sv_pool sv)" "\<not> queue_full (sv_pool sv)" "dn_pool ?d0 = sv_pool sv" "dn_at ?d0 = At_metrics"
    "sv_server (dn_service ?d0) = sv_server sv"
    by (simp_all add: n(2) fresh_pool_def queue_full_def begin_shutdown_def)
  have "down_step ?d0 (Pool (Entered j)) ?d1" by (rule submit [OF _ enter]) (simp_all add: f assms(2))
  moreover have "down_step ?d1 (Pool (Accepted j)) ?d2" by (rule submit [OF _ push]) (simp_all add: f assms(2))
  moreover have "down_step ?d2 Metrics_stopped ?d3" by (rule metrics) (simp add: f)
  moreover have "down_step ?d3 Server_stopped ?d4" by (rule server) simp_all
  moreover have "down_step ?d4 Scheduler_destroyed ?d5" by (rule scheduler) simp
  moreover have "down_step ?d5 Auth_destroyed ?d6" by (rule auth) simp
  moreover have "down_step ?d6 (Pool (Took 0 j)) ?d7"
    by (intro work take) (simp_all add: f n(1))
  moreover have "down_step ?d7 (Pool (Ran_job 0 j (job_result j))) ?d8"
    using work [OF run_task [of 0 "dn_pool ?d7" j]] n(1) by (simp add: f)
  ultimately have "run down_step ?d0 [Pool (Entered j), Pool (Accepted j), Metrics_stopped, Server_stopped,
      Scheduler_destroyed, Auth_destroyed, Pool (Took 0 j), Pool (Ran_job 0 j (job_result j))] ?d8"
    by (blast intro: run_Cons run_nil)
  moreover have "am_shutdown (sv_auth (dn_service ?d8))" by (simp add: destroy_AuthManager_def)
  ultimately show ?thesis by blast
qed

definition demo_task :: "unit Job" where
  "demo_task = \<lparr>job_id = 1, job_result = Inr ()\<rparr>"

theorem auth_task_outlives_manager_witness:
  "\<exists>sv d. run_state (main_start demo_platform fresh_singletons) [] = (Inr sv, [])
     \<and> run down_step (begin_shutdown sv)
         [Pool (Entered demo_task), Pool (Accepted demo_task), Metrics_stopped, Server_stopped,
          Scheduler_destroyed, Auth_destroyed, Pool (Took 0 demo_task), Pool (Ran_job 0 demo_task (Inr ()))] d
     \<and> am_shutdown (sv_auth (dn_service d))"
proof -
  obtain sv where sv: "run_state (main_start demo_platform fresh_singletons) [] = (Inr sv, [])"
    using demo_starts by blast
  then have "hs_running (sv_server sv)" using main_start_server [OF sv] by (simp add: demo_platform_def)
  from auth_task_outlives_manager [OF sv this, of demo_task] sv show ?thesis by (auto simp: demo_task_def)
qed

end
