(* ===== verification/Gate_History.thy ===== *)
theory Gate_History
  imports Gate_Main
begin

text \<open>
  What a service guarantees over its whole life: the hooks it serves one after the other, whatever
  their order, keep an invariant of the registry. Every session in it was authorised, every stream
  has at most one publisher, and every player's stream has one.
\<close>

section \<open>Histories of hooks\<close>

text \<open>The controller serves a list of hooks, each at its own moment.\<close>

fun route_all ::
  "('w, 'r) Gate \<Rightarrow> (Moment \<times> ZlmHookRequest) list \<Rightarrow> Scheduler \<Rightarrow> 'r \<Rightarrow>
   ('w, (exn + ZlmHookResponse option) list \<times> Scheduler \<times> 'r) state" where
  "route_all g [] sc repo = ret ([], sc, repo)"
| "route_all g ((t, hook) # hooks) sc repo = do {
     x \<leftarrow> routeHook g t hook sc repo;
     y \<leftarrow> route_all g hooks (fst (snd x)) (snd (snd x));
     ret (fst x # fst y, snd y)
   }"

text \<open>
  What is asked of the hooks: client ids without the key separator, a clock in the accepted range, and
  that a client keeps to one role on a stream, so that who publishes it is not a player of it too.
\<close>

fun hook_fits :: "(string \<Rightarrow> string \<Rightarrow> StreamType) \<Rightarrow> Moment \<times> ZlmHookRequest \<Rightarrow> bool" where
  "hook_fits role (t, hook) \<longleftrightarrow>
     colon_free (hook_client_id hook) \<and> reasonable_ms (to_ms (at_ns t)) \<and> reasonable_ms (at_ms t)
     \<and> (hook_action hook = Publish \<longrightarrow> role (stream_key hook) (hook_client_id hook) = PUBLISHER)
     \<and> (hook_action hook = Play \<or> hook_action hook = PlayDone \<longrightarrow>
          role (stream_key hook) (hook_client_id hook) = PLAYER)"

text \<open>An answer with success to a publish or play hook needs an authorisation.\<close>

fun answer_sound :: "(string \<Rightarrow> string \<Rightarrow> string \<Rightarrow> bool) \<Rightarrow> Moment \<times> ZlmHookRequest \<Rightarrow> exn + ZlmHookResponse option \<Rightarrow> bool" where
  "answer_sound H (t, hook) x \<longleftrightarrow>
     (case x of
        Inr (Some resp) \<Rightarrow>
          zlm_code resp = ZLM_SUCCESS \<longrightarrow> hook_action hook = Publish \<or> hook_action hook = Play \<longrightarrow>
          H (stream_key hook) (hook_client_id hook) (get_token hook)
      | _ \<Rightarrow> True)"

section \<open>The invariant of the registry\<close>

definition admits :: "(string \<Rightarrow> string \<Rightarrow> string \<Rightarrow> bool) \<Rightarrow> (string \<Rightarrow> string \<Rightarrow> StreamType) \<Rightarrow> registry \<Rightarrow> bool" where
  "admits H role \<rho> \<longleftrightarrow> (\<forall>s c t. \<rho> (s, c) = Some t \<longrightarrow>
     H s c (auth_token t) \<and> task_type t = role s c \<and> (task_type t = PLAYER \<longrightarrow> (\<exists>p. publishes \<rho> s p)))"

lemma admitsD:
  assumes "admits H role \<rho>" "\<rho> (s, c) = Some t"
  shows "H s c (auth_token t)" "task_type t = role s c" "task_type t = PLAYER \<Longrightarrow> \<exists>p. publishes \<rho> s p"
  using assms unfolding admits_def by blast+

text \<open>An invariant registry stays so when its new entries are admitted and no stream loses its publisher.\<close>

lemma admits_step:
  assumes "admits H role \<rho>"
    and "\<And>s c t. \<sigma> (s, c) = Some t \<Longrightarrow> \<rho> (s, c) = Some t
      \<or> H s c (auth_token t) \<and> task_type t = role s c \<and> (task_type t = PLAYER \<longrightarrow> (\<exists>p. publishes \<rho> s p))"
    and "\<And>s c t p. \<sigma> (s, c) = Some t \<Longrightarrow> publishes \<rho> s p \<Longrightarrow> \<exists>q. publishes \<sigma> s q"
  shows "admits H role \<sigma>"
  unfolding admits_def using admitsD [OF assms(1)] assms(2,3) by metis

lemma admits_empty: "admits H role Map.empty"
  by (simp add: admits_def)

lemma stored_token [simp]: "auth_token (stored t) = auth_token t"
  by (simp add: stored_def)

lemma admits_register:
  assumes adm: "admits H role \<rho>" and "reasonable_ms now"
    and t: "stream_name t = s" "client_id t = c" "task_type t = role s c" "H s c (auth_token t)"
    and pub: "task_type t = PLAYER \<Longrightarrow> \<exists>p. publishes \<rho> s p"
  shows "admits H role (registered \<rho> now t)"
proof (cases "taken \<rho> t")
  case False
  have keep: "\<exists>q. publishes (\<rho>((s, c) \<mapsto> stored t)) s' q" if p: "publishes \<rho> s' p" for s' p
  proof (cases "s' = s \<and> client_id p = c")
    case True
    then have "role s c = PUBLISHER" using p admitsD(2) [OF adm] by (auto simp: publishes_def)
    then show ?thesis using True t by (auto simp: publishes_def intro!: exI [of _ "stored t"])
  qed (use p in \<open>auto simp: publishes_def intro!: exI [of _ p]\<close>)
  have "registered \<rho> now t = \<rho>((s, c) \<mapsto> stored t)"
    using False assms(2) t by (simp add: registered_def spec_register_def)
  moreover have "admits H role (\<rho>((s, c) \<mapsto> stored t))"
    by (rule admits_step [OF adm]) (use t pub keep in \<open>auto split: if_splits\<close>)
  ultimately show ?thesis by simp
qed (use adm in \<open>simp add: registered_def\<close>)

lemma admits_clear: "admits H role \<rho> \<Longrightarrow> admits H role (spec_clear s \<rho>)"
  by (erule admits_step) (auto simp: spec_clear_def publishes_def split: if_splits)

lemma admits_deregister:
  assumes adm: "admits H role \<rho>" and "role s c = PLAYER"
  shows "admits H role (spec_deregister s c \<rho>)"
proof (rule admits_step [OF adm])
  fix s' p assume "publishes \<rho> s' p"
  then have "publishes (spec_deregister s c \<rho>) s' p"
    using admitsD(2) [OF adm, of s' "client_id p" p] assms(2) by (auto simp: publishes_def spec_deregister_def)
  then show "\<exists>q. publishes (spec_deregister s c \<rho>) s' q" by blast
qed (simp add: spec_deregister_def split: if_splits)

text \<open>The number of players grows by one at most.\<close>

lemma players_registered:
  assumes "valid_registry \<rho>"
  shows "card (players (registered \<rho> now t)) \<le> Suc (card (players \<rho>))"
proof -
  have "players (registered \<rho> now t) \<subseteq> insert (stream_name t, client_id t) (players \<rho>)"
    by (auto simp: players_def registered_def spec_register_def spec_deregister_def split: if_splits)
  from card_mono [OF _ this] show ?thesis
    using finite_players [OF assms] by (auto simp: card_insert_if split: if_splits)
qed

lemma players_fewer:
  assumes "valid_registry \<rho>"
  shows "card (players (spec_clear s \<rho>)) \<le> card (players \<rho>)" "card (players (spec_deregister s c \<rho>)) \<le> card (players \<rho>)"
proof -
  have "players (spec_clear s \<rho>) \<subseteq> players \<rho>" "players (spec_deregister s c \<rho>) \<subseteq> players \<rho>"
    by (auto simp: players_def spec_clear_def spec_deregister_def split: if_splits)
  then show "card (players (spec_clear s \<rho>)) \<le> card (players \<rho>)" "card (players (spec_deregister s c \<rho>)) \<le> card (players \<rho>)"
    using card_mono [OF finite_players [OF assms]] by simp_all
qed

section \<open>The cache of authorisations stays out of it\<close>

abbreviation cached_as :: "keyspace \<Rightarrow> auth_row set \<Rightarrow> keyspace \<times> auth_row set \<Rightarrow> bool" where
  "cached_as K T LU \<equiv> snd LU = T \<and> (\<forall>k. take 10 k = ''auth_data:'' \<longrightarrow> fst LU k = K k)"

lemma cache_ok_cong:
  assumes "cache_ok J H K" "\<forall>k. take 10 k = ''auth_data:'' \<longrightarrow> L k = K k"
  shows "cache_ok J H L"
  using assms unfolding cache_ok_def by metis

lemma keeps_pair:
  assumes "keeps view I m" "\<And>w. rows (snd (run_state m w)) = rows w"
  shows "keeps (\<lambda>w. (view w, rows w)) (\<lambda>LU. snd LU = T \<and> I (fst LU)) m"
  using assms by (auto simp: keeps_def outcome_def)

lemma entry_keys_uncached: "\<forall>k \<in> entry_keys s c. take 10 k \<noteq> ''auth_data:''"
  by (simp add: entry_keys_def key_defs)

sublocale gate_backend \<subseteq> uncached: redis_frame R "\<lambda>w. (view w, rows w)" "cached_as K T"
    "\<lambda>k. take 10 k \<noteq> ''auth_data:''" for K T
proof
  fix c assume c: "\<forall>k \<in> cmd_writes c. take 10 k \<noteq> ''auth_data:''"
  have "keeps view (\<lambda>L. \<forall>k. take 10 k = ''auth_data:'' \<longrightarrow> L k = K k) (redis_exec R c)"
    by (rule keeps_exec) (use c apply_cmd_other in auto)
  from keeps_pair [OF this, of rows T] redis_frame
  show "keeps (\<lambda>w. (view w, rows w)) (cached_as K T) (redis_exec R c)" by simp
next
  fix cs assume cs: "\<forall>c \<in> set cs. \<forall>k \<in> cmd_writes c. take 10 k \<noteq> ''auth_data:''"
  have "apply_cmd c L k = L k" if "c \<in> set cs" "take 10 k = ''auth_data:''" for c L k
    using cs that by (intro apply_cmd_other) auto
  then have "keeps view (\<lambda>L. \<forall>k. take 10 k = ''auth_data:'' \<longrightarrow> L k = K k) (redis_pipe R cs)"
    by (intro keeps_pipe) auto
  from keeps_pair [OF this, of rows T] pipe_rows
  show "keeps (\<lambda>w. (view w, rows w)) (cached_as K T) (redis_pipe R cs)" by simp
qed

context gate_backend
begin

lemma frame_scheduler:
  "keeps (\<lambda>w. (view w, rows w)) (cached_as K T)
     (onPublish_auth (RedisStreamStateManager (ready R)) now_ns now_ms s c tok proto sc code)"
  "keeps (\<lambda>w. (view w, rows w)) (cached_as K T)
     (onPlay_auth (RedisStreamStateManager (ready R)) now_ns now_ms s c tok proto sc code)"
  "keeps (\<lambda>w. (view w, rows w)) (cached_as K T) (onPublishDone (RedisStreamStateManager (ready R)) s c)"
  "keeps (\<lambda>w. (view w, rows w)) (cached_as K T) (onPlayDone (RedisStreamStateManager (ready R)) s c)"
  unfolding onPublish_auth_def onPlay_auth_def onPublishDone_def onPlayDone_def RedisStreamStateManager_def Let_def
    IStreamStateManager.simps case_prod_beta
  by (auto intro!: outcome_intros uncached.frame_registerTask uncached.frame_deregisterTask
      uncached.frame_deregisterAllMembers entry_keys_uncached split: option.splits)

lemma with_cache:
  assumes "outcome view K m \<Phi>" "\<And>K' T'. keeps (\<lambda>w. (view w, rows w)) (cached_as K' T') m" "cache_ok J H K"
  shows "outcome (\<lambda>w. (view w, rows w)) (K, T) m (\<lambda>x LU. snd LU = T \<and> cache_ok J H (fst LU) \<and> \<Phi> x (fst LU))"
proof -
  have "outcome (\<lambda>w. (view w, rows w)) (K, T) m (\<lambda>_. cached_as K T)"
    using assms(2) [where K' = K and T' = T] by (simp add: keeps_def)
  from outcome_conjI [OF this outcome_with [OF assms(1), of rows T]] show ?thesis
    by (rule outcome_mono) (auto dest: cache_ok_cong [OF assms(3)])
qed

end

section \<open>One hook\<close>

definition gate_inv ::
  "json_lib \<Rightarrow> (string \<Rightarrow> string \<Rightarrow> string \<Rightarrow> bool) \<Rightarrow> (string \<Rightarrow> string \<Rightarrow> StreamType) \<Rightarrow> auth_row set \<Rightarrow> nat \<Rightarrow> Scheduler \<Rightarrow>
   keyspace \<times> auth_row set \<Rightarrow> bool" where
  "gate_inv J H role T n sc LU \<longleftrightarrow>
     snd LU = T \<and> cache_ok J H (fst LU) \<and> nodes_ok (node_config sc)
     \<and> (\<exists>\<rho>. represents (fst LU) \<rho> \<and> admits H role \<rho> \<and> card (players \<rho>) \<le> n)"

lemma gate_inv_mono: "gate_inv J H role T n sc LU \<Longrightarrow> n \<le> m \<Longrightarrow> node_config sc' = node_config sc \<Longrightarrow> gate_inv J H role T m sc' LU"
  unfolding gate_inv_def by (auto intro: le_trans)

lemma outcome_all:
  assumes "outcome view K m \<Phi>" "all_results m P"
  shows "outcome view K m (\<lambda>x L. \<Phi> x L \<and> P x)"
  using assms by (simp add: outcome_def)

lemma auth_keeps_nodes:
  "all_results (onPublish_auth M now_ns now_ms s c tok proto sc code) (\<lambda>x. node_config (snd x) = node_config sc)"
  "all_results (onPlay_auth M now_ns now_ms s c tok proto sc code) (\<lambda>x. node_config (snd x) = node_config sc)"
  by (auto simp: onPublish_auth_def onPlay_auth_def selectBestNode_def createTask_def Let_def case_prod_beta
      intro!: outcome_bind [OF outcome_any] outcome_return split: sum.splits bool.splits option.splits)

lemma play_registrable:
  assumes "valid_registry \<rho>" "publishes \<rho> s p" "colon_free c" "reasonable_ms (to_ms now_ns)"
    and "int (card (players \<rho>)) + 1 < 2 ^ 63"
  shows "registrable \<rho> (play_task s c tok proto now_ns p sc)"
proof -
  have "storable p" using assms(2) valid_registryD(4) [OF assms(1)] by (auto simp: publishes_def)
  then show ?thesis
    using assms(3-5)
    by (auto simp: registrable_def storable_def play_task_def createTask_def default_task_def split: option.splits)
qed

lemma play_task_token [simp]: "auth_token (play_task s c tok proto now_ns p sc) = tok"
  "auth_token (publish_task s c tok proto now_ns sc) = tok"
  by (simp_all add: play_task_def publish_task_def createTask_def case_prod_beta)

abbreviation answered ::
  "json_lib \<Rightarrow> (string \<Rightarrow> string \<Rightarrow> string \<Rightarrow> bool) \<Rightarrow> (string \<Rightarrow> string \<Rightarrow> StreamType) \<Rightarrow> auth_row set \<Rightarrow> nat \<Rightarrow> string \<Rightarrow>
   string \<Rightarrow> string \<Rightarrow> SchedulerResult \<times> Scheduler \<Rightarrow> keyspace \<times> auth_row set \<Rightarrow> bool" where
  "answered J H role T n s c tok x LU \<equiv> gate_inv J H role T n (snd x) LU \<and> (isSuccess (fst x) \<longrightarrow> H s c tok)"

abbreviation redis_gate ::
  "'w redis \<Rightarrow> 'w auth_db \<Rightarrow> json_lib \<Rightarrow> AuthManager \<Rightarrow> ('w, HybridAuthRepository) Gate" where
  "redis_gate R D J am \<equiv>
     \<lparr>g_state = RedisStreamStateManager (ready R), g_auth = am, g_repo = hybrid_repository J (ready R) D\<rparr>"

lemma response_success: "zlm_code (to_response d) = ZLM_SUCCESS \<Longrightarrow> decision d = Allow"
  by (simp add: to_response_def split: if_splits)

lemma answer_other:
  "hook_action hook \<noteq> Publish \<Longrightarrow> hook_action hook \<noteq> Play \<Longrightarrow> answer_sound H (t, hook) x"
  by (simp split: sum.splits option.splits)

context gate_backend
begin

lemma onPublish_auth_inv:
  assumes inv: "gate_inv J H role T n sc (L, T)" and code: "code = 0 \<longrightarrow> H s c tok"
    and fits: "colon_free c" "reasonable_ms (to_ms now_ns)" "reasonable_ms now_ms" "role s c = PUBLISHER" "int n + 1 < 2 ^ 63"
  shows "outcome (\<lambda>w. (view w, rows w)) (L, T)
    (onPublish_auth (RedisStreamStateManager (ready R)) now_ns now_ms s c tok proto sc code)
    (\<lambda>x LU. gate_inv J H role T (Suc n) (snd x) LU \<and> (isSuccess (fst x) \<longrightarrow> H s c tok))"
proof (cases "code = 0")
  case True
  obtain \<rho> where \<rho>: "represents L \<rho>" "admits H role \<rho>" "card (players \<rho>) \<le> n"
    and cache: "cache_ok J H L" and nodes: "nodes_ok (node_config sc)"
    using inv by (auto simp: gate_inv_def)
  let ?t = "publish_task s c tok proto now_ns sc"
  have v: "valid_registry \<rho>" using \<rho>(1) by (simp add: represents_def indexed_def)
  have reg: "registrable \<rho> ?t"
    using nodes fits \<rho>(3) admitsD(2) [OF \<rho>(2), of s c] by (intro publish_registrable) auto
  have "admits H role (registered \<rho> now_ms ?t)"
    using \<rho>(2) fits code True by (intro admits_register [of H role \<rho> now_ms ?t s c]) auto
  moreover have "card (players (registered \<rho> now_ms ?t)) \<le> Suc n"
    using players_registered [OF v, of now_ms ?t] \<rho>(3) by simp
  ultimately have "gate_inv J H role T (Suc n) sc' LU"
    if "snd LU = T" "cache_ok J H (fst LU)" "represents (fst LU) (registered \<rho> now_ms ?t)" "node_config sc' = node_config sc"
    for sc' LU using that nodes by (auto simp: gate_inv_def)
  moreover note run = with_cache [OF ism.onPublish_auth_ok [OF \<rho>(1) reg] frame_scheduler(1) cache]
  ultimately show ?thesis
    using code True unfolding True
    by (intro outcome_mono [OF outcome_all [OF run auth_keeps_nodes(1)]]) (auto simp: case_prod_beta)
qed (use inv in \<open>auto intro!: outcome_return simp: onPublish_auth_def failed_def isSuccess_def elim: gate_inv_mono\<close>)

lemma onPlay_auth_inv:
  assumes inv: "gate_inv J H role T n sc (L, T)" and code: "code = 0 \<longrightarrow> H s c tok"
    and fits: "colon_free c" "reasonable_ms (to_ms now_ns)" "reasonable_ms now_ms" "role s c = PLAYER" "int n + 1 < 2 ^ 63"
  shows "outcome (\<lambda>w. (view w, rows w)) (L, T)
    (onPlay_auth (RedisStreamStateManager (ready R)) now_ns now_ms s c tok proto sc code)
    (\<lambda>x LU. gate_inv J H role T (Suc n) (snd x) LU \<and> (isSuccess (fst x) \<longrightarrow> H s c tok))"
proof (cases "code = 0")
  case True
  obtain \<rho> where \<rho>: "represents L \<rho>" "admits H role \<rho>" "card (players \<rho>) \<le> n"
    and cache: "cache_ok J H L" and nodes: "nodes_ok (node_config sc)"
    using inv by (auto simp: gate_inv_def)
  let ?t = "\<lambda>p. play_task s c tok proto now_ns p sc"
  have v: "valid_registry \<rho>" using \<rho>(1) by (simp add: represents_def indexed_def)
  have reg: "registrable \<rho> (?t p)" if "publishes \<rho> s p" for p
    using that fits \<rho>(3) by (intro play_registrable [OF v]) auto
  have "admits H role \<sigma> \<and> card (players \<sigma>) \<le> Suc n" if "play_outcome \<rho> now_ms s ?t res \<sigma>" for res \<sigma>
  proof -
    have "admits H role (registered \<rho> now_ms (?t p))" if "publishes \<rho> s p" for p
      using \<rho>(2) fits code True that by (intro admits_register [of H role \<rho> now_ms "?t p" s c]) auto
    then show ?thesis
      using that \<rho>(2,3) players_registered [OF v] by (auto simp: play_outcome_def intro: le_trans)
  qed
  then have "gate_inv J H role T (Suc n) sc' LU"
    if "snd LU = T" "cache_ok J H (fst LU)" "play_outcome \<rho> now_ms s ?t res \<sigma>" "represents (fst LU) \<sigma>"
      "node_config sc' = node_config sc" for sc' LU res \<sigma>
    using that nodes by (auto simp: gate_inv_def)
  moreover note run = with_cache [OF ism.onPlay_auth_ok [OF \<rho>(1) reg] frame_scheduler(2) cache]
  ultimately show ?thesis
    using code True unfolding True
    by (intro outcome_mono [OF outcome_all [OF run auth_keeps_nodes(2)]]) (auto simp: case_prod_beta)
qed (use inv in \<open>auto intro!: outcome_return simp: onPlay_auth_def failed_def isSuccess_def elim: gate_inv_mono\<close>)

text \<open>The authentication before a callback, and the callback that starts with the invariant.\<close>

lemma performAuthLogic_inv:
  assumes J: "json_roundtrip J" and inv: "gate_inv J H role T n sc (K, T)"
    and H: "\<And>sk cid tok. authorised col_eq T sk cid tok \<Longrightarrow> H sk cid tok"
  shows "outcome (\<lambda>w. (view w, rows w)) (K, T) (performAuthLogic (hybrid_repository J (ready R) D) repo s c tok)
    (\<lambda>r LU. gate_inv J H role T n sc LU \<and> (fst r = 0 \<longrightarrow> H s c tok))"
proof -
  obtain \<rho> where \<rho>: "represents K \<rho>" "admits H role \<rho>" "card (players \<rho>) \<le> n"
    and cache: "cache_ok J H K" and nodes: "nodes_ok (node_config sc)"
    using inv by (auto simp: gate_inv_def)
  from outcome_conjI [OF performAuthLogic_both [OF J cache H] auth_keeps_registry [OF J cache \<rho>(1) H]]
  show ?thesis by (rule outcome_mono) (use \<rho>(2,3) nodes in \<open>auto simp: gate_inv_def\<close>)
qed

lemma checkAuthAsync_inv:
  assumes J: "json_roundtrip J" and inv: "gate_inv J H role T n sc (K, T)"
    and H: "\<And>sk cid tok. authorised col_eq T sk cid tok \<Longrightarrow> H sk cid tok"
    and cb: "\<And>code L. gate_inv J H role T n sc (L, T) \<Longrightarrow> code = 0 \<longrightarrow> H s c tok \<Longrightarrow>
      outcome (\<lambda>w. (view w, rows w)) (L, T) (cb code) (answered J H role T (Suc n) s c tok)"
  shows "outcome (\<lambda>w. (view w, rows w)) (K, T)
    (checkAuthAsync am (hybrid_repository J (ready R) D) repo fate
       \<lparr>req_streamKey = s, req_clientId = c, req_authToken = tok\<rparr> cb)
    (\<lambda>x LU. case fst x of Inr (Some y) \<Rightarrow> answered J H role T (Suc n) s c tok y LU
       | _ \<Rightarrow> gate_inv J H role T (Suc n) sc LU)"
    (is "outcome ?v _ _ ?post")
proof -
  have step: "outcome ?v LU (do { x \<leftarrow> cb (fst r); ret (Inr (Some x), snd r) }) ?post"
    if "gate_inv J H role T n sc LU \<and> (fst r = 0 \<longrightarrow> H s c tok)" for LU r
  proof -
    have LU: "LU = (fst LU, T)" using that by (auto simp: gate_inv_def)
    show ?thesis
      by (subst LU, rule outcome_bind [OF cb]) (use that LU in \<open>auto intro!: outcome_return\<close>)
  qed
  have "outcome ?v (K, T) (do { r \<leftarrow> performAuthLogic (hybrid_repository J (ready R) D) repo s c tok;
      x \<leftarrow> cb (fst r); ret (Inr (Some x), snd r) }) ?post"
    by (rule outcome_bind [OF performAuthLogic_inv [OF J inv H]]) (assumption, rule step)
  then show ?thesis
    using gate_inv_mono [OF inv, of "Suc n" sc]
    by (auto simp: checkAuthAsync_def intro!: outcome_return split: pool_fate.splits)
qed

lemma onPublish_inv:
  assumes J: "json_roundtrip J" and inv: "gate_inv J H role T n sc (K, T)"
    and H: "\<And>sk cid tok. authorised col_eq T sk cid tok \<Longrightarrow> H sk cid tok"
    and fits: "colon_free c" "reasonable_ms (to_ms now_ns)" "reasonable_ms now_ms" "role s c = PUBLISHER" "int n + 1 < 2 ^ 63"
  shows "outcome (\<lambda>w. (view w, rows w)) (K, T)
    (onPublish (RedisStreamStateManager (ready R)) am (hybrid_repository J (ready R) D) repo fate now_ns now_ms s c tok proto sc)
    (\<lambda>x LU. gate_inv J H role T (Suc n) (fst (snd x)) LU \<and> (\<forall>r. fst x = Inr (Some r) \<longrightarrow> isSuccess r \<longrightarrow> H s c tok))"
proof -
  have inv': "gate_inv J H role T n (sc\<lparr>totalPublishReq := totalPublishReq sc + 1\<rparr>) (K, T)"
    by (rule gate_inv_mono [OF inv]) simp_all
  show ?thesis
    unfolding onPublish_def Let_def
    by (auto simp: validateRequest_def isSuccess_def
        intro!: outcome_return gate_inv_mono [OF inv] outcome_bind [OF checkAuthAsync_inv [OF J inv' H onPublish_auth_inv]] fits
        split: option.splits sum.splits prod.splits if_splits)
qed

lemma onPlay_inv:
  assumes J: "json_roundtrip J" and inv: "gate_inv J H role T n sc (K, T)"
    and H: "\<And>sk cid tok. authorised col_eq T sk cid tok \<Longrightarrow> H sk cid tok"
    and fits: "colon_free c" "reasonable_ms (to_ms now_ns)" "reasonable_ms now_ms" "role s c = PLAYER" "int n + 1 < 2 ^ 63"
  shows "outcome (\<lambda>w. (view w, rows w)) (K, T)
    (onPlay (RedisStreamStateManager (ready R)) am (hybrid_repository J (ready R) D) repo fate now_ns now_ms s c tok proto sc)
    (\<lambda>x LU. gate_inv J H role T (Suc n) (fst (snd x)) LU \<and> (\<forall>r. fst x = Inr (Some r) \<longrightarrow> isSuccess r \<longrightarrow> H s c tok))"
proof -
  have inv': "gate_inv J H role T n (sc\<lparr>totalPlayReq := totalPlayReq sc + 1\<rparr>) (K, T)"
    by (rule gate_inv_mono [OF inv]) simp_all
  show ?thesis
    unfolding onPlay_def Let_def
    by (auto simp: validateRequest_def isSuccess_def
        intro!: outcome_return gate_inv_mono [OF inv] outcome_bind [OF checkAuthAsync_inv [OF J inv' H onPlay_auth_inv]] fits
        split: option.splits sum.splits prod.splits if_splits)
qed

lemma done_inv:
  assumes inv: "gate_inv J H role T n sc (K, T)" and c: "colon_free c"
  shows "outcome (\<lambda>w. (view w, rows w)) (K, T) (onPublishDone (RedisStreamStateManager (ready R)) s c)
      (\<lambda>_. gate_inv J H role T (Suc n) sc)"
    and "role s c = PLAYER \<Longrightarrow> outcome (\<lambda>w. (view w, rows w)) (K, T) (onPlayDone (RedisStreamStateManager (ready R)) s c)
      (\<lambda>_. gate_inv J H role T (Suc n) sc)"
proof -
  obtain \<rho> where \<rho>: "represents K \<rho>" "admits H role \<rho>" "card (players \<rho>) \<le> n"
    and cache: "cache_ok J H K" and nodes: "nodes_ok (node_config sc)"
    using inv by (auto simp: gate_inv_def)
  have v: "valid_registry \<rho>" using \<rho>(1) by (simp add: represents_def indexed_def)
  have invI: "gate_inv J H role T (Suc n) sc LU"
    if "snd LU = T" "cache_ok J H (fst LU)" "represents (fst LU) \<sigma>" "admits H role \<sigma>" "card (players \<sigma>) \<le> card (players \<rho>)"
    for LU \<sigma> using that \<rho>(3) nodes by (auto simp: gate_inv_def intro: le_trans le_SucI)
  show "outcome (\<lambda>w. (view w, rows w)) (K, T) (onPublishDone (RedisStreamStateManager (ready R)) s c)
      (\<lambda>_. gate_inv J H role T (Suc n) sc)"
    by (rule outcome_mono [OF with_cache [OF ism.onPublishDone_ok [OF \<rho>(1) c] frame_scheduler(3) cache]])
      (use invI [OF _ _ _ \<rho>(2)] invI [OF _ _ _ admits_clear [OF \<rho>(2)] players_fewer(1) [OF v]] in
        \<open>auto split: if_splits\<close>)
  show "outcome (\<lambda>w. (view w, rows w)) (K, T) (onPlayDone (RedisStreamStateManager (ready R)) s c)
      (\<lambda>_. gate_inv J H role T (Suc n) sc)" if "role s c = PLAYER"
    by (rule outcome_mono [OF with_cache [OF ism.onPlayDone_ok [OF \<rho>(1) c] frame_scheduler(4) cache]])
      (use invI [OF _ _ _ admits_deregister [OF \<rho>(2) that] players_fewer(2) [OF v]] in auto)
qed

lemma routeHook_inv:
  assumes J: "json_roundtrip J" and inv: "gate_inv J H role T n sc (K, T)"
    and H: "\<And>sk cid tok. authorised col_eq T sk cid tok \<Longrightarrow> H sk cid tok"
    and fits: "hook_fits role (t, hook)" "int n + 1 < 2 ^ 63"
  shows "outcome (\<lambda>w. (view w, rows w)) (K, T) (routeHook (redis_gate R D J am) t hook sc repo)
    (\<lambda>x LU. gate_inv J H role T (Suc n) (fst (snd x)) LU \<and> answer_sound H (t, hook) (fst x))"
proof -
  note ends = done_inv [OF inv]
  have "outcome (\<lambda>w. (view w, rows w)) (K, T) (bindE m (\<lambda>_. ok allow)) (\<lambda>_. gate_inv J H role T (Suc n) sc)"
    if "outcome (\<lambda>w. (view w, rows w)) (K, T) m (\<lambda>_. gate_inv J H role T (Suc n) sc)" for m :: "('w, 'q) call"
    by (rule outcome_bindE [OF that]) auto
  note ended = outcome_bind [OF this]
  have sound: "answer_sound H (t, hook) (map_sum id (map_option to_response) (map_sum id (map_option mapResult) x))"
    if "\<forall>r. x = Inr (Some r) \<longrightarrow> isSuccess r \<longrightarrow> H (stream_key hook) (hook_client_id hook) (get_token hook)" for x
    using that by (auto dest!: response_success simp: mapped_Some decision_Allow split: sum.splits option.splits)
  show ?thesis
    using fits gate_inv_mono [OF inv, of "Suc n" sc]
    unfolding routeHook_def handlePublish_def handlePlay_def handlePublishDone_def handlePlayDone_def
      processPublish_def processPlay_def processPublishDone_def processPlayDone_def Gate.simps
    by (cases "hook_action hook")
      (auto intro!: outcome_bind [OF onPublish_inv [OF J inv H]] outcome_bind [OF onPlay_inv [OF J inv H]]
        ended ends outcome_return sound simp: answer_other simp del: answer_sound.simps)
qed

lemma route_all_inv:
  assumes J: "json_roundtrip J" and H: "\<And>sk cid tok. authorised col_eq T sk cid tok \<Longrightarrow> H sk cid tok"
    and "gate_inv J H role T n sc (K, T)" "list_all (hook_fits role) hooks" "int n + int (length hooks) < 2 ^ 63"
  shows "outcome (\<lambda>w. (view w, rows w)) (K, T) (route_all (redis_gate R D J am) hooks sc repo)
    (\<lambda>x LU. gate_inv J H role T (n + length hooks) (fst (snd x)) LU \<and> list_all2 (answer_sound H) hooks (fst x))"
  using assms(3-5)
proof (induction hooks arbitrary: n sc K repo)
  case Nil
  then show ?case by (auto intro!: outcome_return)
next
  case (Cons a hooks)
  obtain t hook where a: "a = (t, hook)" by (cases a)
  have fits: "hook_fits role (t, hook)" "int n + 1 < 2 ^ 63" using Cons.prems a by auto
  show ?case
    unfolding a route_all.simps
  proof (rule outcome_bind [OF routeHook_inv [OF J Cons.prems(1) H fits]], assumption)
    fix x :: "(exn + ZlmHookResponse option) \<times> Scheduler \<times> HybridAuthRepository" and LU
    assume x: "gate_inv J H role T (Suc n) (fst (snd x)) LU \<and> answer_sound H (t, hook) (fst x)"
    then have LU: "LU = (fst LU, T)" by (auto simp: gate_inv_def)
    have rest: "outcome (\<lambda>w. (view w, rows w)) (fst LU, T) (route_all (redis_gate R D J am) hooks (fst (snd x)) (snd (snd x)))
      (\<lambda>y LU. gate_inv J H role T (Suc n + length hooks) (fst (snd y)) LU \<and> list_all2 (answer_sound H) hooks (fst y))"
      by (rule Cons.IH) (use x LU Cons.prems in auto)
    show "outcome (\<lambda>w. (view w, rows w)) LU
       (do { y \<leftarrow> route_all (redis_gate R D J am) hooks (fst (snd x)) (snd (snd x)); ret (fst x # fst y, snd y) })
       (\<lambda>y LU. gate_inv J H role T (n + length ((t, hook) # hooks)) (fst (snd y)) LU
          \<and> list_all2 (answer_sound H) ((t, hook) # hooks) (fst y))"
      by (subst LU, rule outcome_bind [OF rest]) (use x in \<open>auto intro!: outcome_return simp del: answer_sound.simps\<close>)
  qed
qed

end

section \<open>The life of a service\<close>

text \<open>The program starts and its controller serves the hooks that come in.\<close>

definition serve_all ::
  "'w Platform \<Rightarrow> (Moment \<times> ZlmHookRequest) list \<Rightarrow> ('w, (exn + ZlmHookResponse option) list option) state" where
  "serve_all P hooks = do {
     r \<leftarrow> main_start P fresh_singletons;
     case r of
       Inl _ \<Rightarrow> ret None
     | Inr sv \<Rightarrow> do {
         x \<leftarrow> route_all (service_gate P sv) hooks (sv_scheduler sv) (sv_repo sv);
         ret (Some (fst x))
       }
   }"

lemma admitted_registry:
  assumes "represents L \<sigma>" "admits H role \<sigma>"
  shows "\<exists>\<sigma>. represents L \<sigma>
    \<and> (\<forall>s c t. \<sigma> (s, c) = Some t \<longrightarrow> H s c (auth_token t) \<and> (task_type t = PLAYER \<longrightarrow> (\<exists>p. publishes \<sigma> s p)))
    \<and> (\<forall>s p q. publishes \<sigma> s p \<longrightarrow> publishes \<sigma> s q \<longrightarrow> p = q)"
proof -
  have v: "valid_registry \<sigma>" using assms(1) by (simp add: represents_def indexed_def)
  show ?thesis using assms(1) admitsD [OF assms(2)] publishes_unique [OF v] by blast
qed


text \<open>A day of one stream: it is published, watched, left by its viewer, and ended.\<close>

definition demo_day :: "(Moment \<times> ZlmHookRequest) list" where
  "demo_day = map (Pair demo_moment)
     [demo_publish,
      demo_hook\<lparr>hook_action := Play, hook_client_id := ''c2''\<rparr>,
      demo_hook\<lparr>hook_action := PlayDone, hook_client_id := ''c2''\<rparr>,
      demo_hook\<lparr>hook_action := PublishDone\<rparr>]"

definition demo_role :: "string \<Rightarrow> string \<Rightarrow> StreamType" where
  "demo_role s c = (if c = ''c1'' then PUBLISHER else PLAYER)"

lemma demo_day_fits: "list_all (hook_fits demo_role) demo_day" "length demo_day = 4"
  by (simp_all add: demo_day_def demo_role_def demo_publish_def demo_hook_def colon_free_def demo_moment_def demo_ns_def
      demo_now_def reasonable_ms_def MIN_REASONABLE_MS_def MAX_REASONABLE_MS_def duration_cast_def)


end
