(* ===== verification/Spec2Isabelle.thy ===== *)
theory Spec2Isabelle
  imports Publisher_Race Hook_Listener Gate_Shutdown Gate_History
begin

text \<open>
  StreamGate, a gateway between a media server and its clients: this library models the program and
  proves what its parts promise each other.

  \<^bold>\<open>The program.\<close> A ZLMediaKit server calls the gateway's HTTP hooks when a client wants to publish
  or play a stream, when it leaves, and when a stream falls silent. \<open>HookServer\<close> reads the requests,
  \<open>HookController\<close> and \<open>HookUseCase\<close> decode and route them, \<open>StreamTaskScheduler\<close> decides. For a
  publish or play request it asks \<open>AuthManager\<close>, which runs on \<open>ThreadPool\<close> and asks
  \<open>HybridAuthRepository\<close>: first the cache (\<open>CacheManager\<close>, Redis), then the database (through the
  connection pool \<open>DBManager\<close>). A granted session becomes a \<open>StreamTask\<close> on a node chosen by
  \<open>NodeConfig\<close>, kept by \<open>RedisStreamStateManager\<close> in Redis; a clean-up thread removes the sessions
  that time out. \<open>ConfigLoader\<close> provides the settings, \<open>HealthChecker\<close> and the metrics watch the rest.

  \<^bold>\<open>The shared layer.\<close>
  \<^item> \<open>Sg_Prelude\<close>: exceptions, the conversions of the C++ library between numbers and text, calls that
    may throw over the state monad, and \<open>outcome\<close>, total correctness of a call against the view of an
    abstract world.
  \<^item> \<open>Redis_Api\<close>: the Redis server is a parameter \<open>'w redis\<close>. The locale \<open>redis_server\<close> has the
    documented laws of a server that may fail, \<open>redis_reliable\<close> adds that commands succeed.
    \<open>Redis_Memory\<close> is an executable server that satisfies both, on which the witnesses run.
  \<^item> \<open>Json_Api\<close>: JSON values and accessors; parsing and printing are the parameter \<open>json_lib\<close>, with
    the round trip as its hypothesis.
  \<^item> \<open>Transitions\<close>: runs of step relations, the locales \<open>history_invariant\<close> and \<open>decreasing\<close>.

  \<^bold>\<open>Sessions and their registry.\<close>
  \<^item> \<open>Stream_Task\<close> (\<open>include/StreamTask.h\<close>, \<open>src/util/StreamTaskSerializer.cpp\<close>,
    \<open>src/util/EnumToString.cpp\<close>): the data of a session and its serializer, with its round trip.
  \<^item> \<open>Cache_Manager\<close> (\<open>src/cache/CacheManager.cpp\<close>): the wrapper around the client, and the outcome of
    each of its methods on the keyspace.
  \<^item> \<open>Stream_State\<close> (\<open>src/repository/RedisStreamStateManager.cpp\<close>): registration, deregistration one by
    one and in batches, heartbeat, time-out scan, counters and lookups, as sequences of commands.
    \<open>Stream_Codec\<close> and \<open>Stream_Registry\<close> give the abstract registry, a finite map from (stream, client)
    to the task, and the relation \<open>represents\<close> between it and the six families of Redis keys.
    \<open>Registry_Properties\<close>: each operation refines its abstract one, on every branch; what was registered
    is found. Its locale \<open>redis_frame\<close> says what a property of the keyspace needs to survive every
    command on other keys: with it a registration touches the keys of no other session even on a server
    that fails, and no operation on sessions touches the cached authorisations.
  \<^item> \<open>State_Manager\<close> (\<open>include/IStreamStateManager.h\<close>): the interface as a record of operations, its
    contract as the locale \<open>stream_state_manager\<close>; the Redis manager on a reliable server is a
    sublocale.
  \<^item> \<open>Publisher_Race\<close>: the registration of a publisher cut at its last look at the publisher key; two
    registrations that interleave there are both granted.

  \<^bold>\<open>Authentication.\<close>
  \<^item> \<open>Auth_Repository\<close> (\<open>src/repository/HybridAuthRepository.cpp\<close>, \<open>src/models/StreamAuthData.cpp\<close>, the
    JSON methods of \<open>CacheManager\<close>), \<open>Auth_Manager\<close> (\<open>src/auth/AuthManager.cpp\<close>). The database is a
    parameter; \<open>Auth_Properties\<close> has its laws as the locale \<open>auth_backend\<close>. A success is justified by a
    row of the database, and a cached entry with another token is refused and dropped.

  \<^bold>\<open>Decisions.\<close>
  \<^item> \<open>Node_Config\<close> (\<open>src/util/NodeConfig.cpp\<close>): loading and validation of the groups of nodes, and
    the selection of a node; round robin is fair.
  \<^item> \<open>Scheduler\<close> (\<open>src/scheduler/StreamTaskScheduler.cpp\<close>): the callbacks, the clean-up and the
    counters. \<open>Scheduler_Properties\<close> proves them over the contract of the state manager and, in the
    locale \<open>gate_backend\<close>, together with the authentication: a granted publisher was authorised and is
    the only one of its stream; a player follows its publisher; only the owner ends a stream; a
    clean-up turn takes each timed-out player off the global counter twice.

  \<^bold>\<open>Hooks.\<close>
  \<^item> \<open>Zlm_Hook\<close> (\<open>include/ZlmHookCommon.h\<close>, \<open>src/util/ZlmHookCommon.cpp\<close>): requests, the query-string
    loop, decisions and responses. The loop agrees with a recursive reading of the query.
  \<^item> \<open>Hook_Server\<close> (\<open>src/util/HookUseCase.cpp\<close>, \<open>src/main/HookController.cpp\<close>,
    \<open>src/main/HookServer.cpp\<close>): use cases, routing, and the life of a connection, driven by the results
    of its reads and writes. \<open>Hook_Properties\<close>: an accepted publish hook was authorised and registered,
    the first request of a connection is answered, and two findings about the answers.
  \<^item> \<open>Hook_Listener\<close> (\<open>src/main/HookServer.cpp\<close>): the acceptor, the sessions and the I/O threads around
    them, with the two halves of \<open>stop\<close>. When \<open>stop\<close> can return, and why a second start is deaf.

  \<^bold>\<open>Concurrency.\<close> Step relations with invariants by rule induction over runs of any length:
  \<^item> \<open>Thread_Pool\<close> (\<open>src/util/ThreadPool.cpp\<close>): clients and workers between their critical sections.
    No accepted task is lost or run twice, the queue stays within its bound, a stopped pool drains.
  \<^item> \<open>Db_Pool\<close> (\<open>src/db/DBManager.cpp\<close>): the threads that take and return connections. A connection has
    one holder; the counters are related to the threads.
  \<^item> \<open>Metrics_Slots\<close> (\<open>src/metrics/ServerMetricsProvider.cpp\<close>): the sequence lock of a counter slot, one
    writer and one reader, never yields a torn triple; the registry of slots, with calls that run one
    after the other, keeps its totals when slots are taken and released.

  \<^bold>\<open>Configuration and monitoring.\<close>
  \<^item> \<open>Config_Loader\<close> (\<open>src/util/ConfigLoader.cpp\<close>): files, environment, validators, typed readers.
    Loading is all or nothing, the environment wins, and a written file reads back. Files and
    environment are arguments. \<open>Std_Double\<close> has \<open>std::stod\<close> for its floating-point settings: the text of
    a number, and its conversion to a double of IEEE 754, which is shown to be the nearest one.
  \<^item> \<open>Health_Checker\<close> (\<open>src/util/HealthChecker.cpp\<close>): the report is consistent whatever the parts answer.
  \<^item> \<open>Metrics\<close> (\<open>include/IMetricsProvider.h\<close>, \<open>src/metrics\<close>): snapshots, the four providers, the
    collector and its worker, the walk over the registered factories (\<open>include/MetricsRegistry.h\<close>) and
    the start of the monitoring; the text of the server's counters always fits its buffer.
  \<^item> \<open>Logger\<close> (\<open>src/util/Logger.cpp\<close>, \<open>include/Logger.h\<close>): the level filter, the line of a message, the
    console and the file. Both hold exactly the accepted messages, in order.

  \<^bold>\<open>The whole program.\<close>
  \<^item> \<open>Gate_Main\<close> (\<open>src/main/main.cpp\<close>): the settings read from the configuration, the construction of
    every part with each early exit, and the service that results. The platform is a record of
    arguments. A service that started is complete, and its nodes are valid; together with the hooks
    this gives the end-to-end property of this theory.
  \<^item> \<open>Gate_History\<close>: the service over a history of hooks. The invariant that every session was
    authorised, that a stream has one publisher at most and a player always one to follow holds from the
    start of the program on. It is about the hooks between two turns of the clean-up: a turn takes a
    timed-out player off the global counter twice, after which the counter is no longer that of the
    registry.
  \<^item> \<open>Gate_Shutdown\<close> (the end of \<open>main\<close>): the wait for a signal, which can be lost, and the shutdown as
    steps of the main thread among those of the pool. Its end is reachable from every point and leaves
    nothing running or queued; but tasks may run after the objects they refer to are gone.

  \<^bold>\<open>Bounds and fuel.\<close> No definition uses fuel: loops are recursive over lists, or have a termination
  proof (the query-string loop, the lines of a file, the set bits of a mask). Counters that can wrap
  are \<open>64 word\<close>s; other numbers are integers, with the range checks of the conversions written out.
  The consistency of a slot is stated for runs of fewer than \<open>2 ^ 64\<close> steps, since its sequence number
  has 64 bits. Clock readings and measured times are arguments, one per reading. Calls on the registry
  run one after the other, except in \<open>Publisher_Race\<close>; memory is sequentially consistent in the step
  relations.

  \<^bold>\<open>Not modelled.\<close> Boost.Asio, redis++, the MariaDB driver and nlohmann::json are not part of the
  program: a socket shows only as the results of its operations, Redis, the database and JSON are
  parameters. The calendar form of a time in the
  log is an argument. The test programs and scripts are left out.
\<close>

section \<open>From the start of the program to the answer of a hook\<close>

text \<open>The program starts and its controller gets one hook.\<close>

definition first_hook ::
  "'w Platform \<Rightarrow> Moment \<Rightarrow> ZlmHookRequest \<Rightarrow> ('w, (exn + ZlmHookResponse option) option) state" where
  "first_hook P t hook = do {
     r \<leftarrow> main_start P fresh_singletons;
     case r of
       Inl _ \<Rightarrow> ret None
     | Inr sv \<Rightarrow> do {
         x \<leftarrow> routeHook (service_gate P sv) t hook (sv_scheduler sv) (sv_repo sv);
         ret (Some (fst x))
       }
   }"

text \<open>
  C1. End to end: whatever the configuration, the files, the nodes, the number of workers and the fate
  of the pool's tasks, when the program starts and its controller then answers a publish hook with
  success, the stream key, client and token of the hook were authorised by the database, now or when a
  cached entry was written (\<open>H\<close>), and the registry in Redis is the old one with this client as the one
  publisher of the stream; whatever happens, the registry stays consistent. The nodes need no assumption: the start leaves only valid ones.
\<close>

theorem publish_end_to_end:
  assumes "gate_backend R view (pf_db P) rows col_eq" "json_roundtrip (pf_json P)"
    and "\<And>h p pw n R'. pf_connect P h p pw n = Inr R' \<Longrightarrow> R' = R"
    and "cache_ok (pf_json P) H K" "represents K \<rho>"
    and "\<And>sk cid tok. authorised col_eq T sk cid tok \<Longrightarrow> H sk cid tok"
    and "hook_action hook = Publish" "colon_free (hook_client_id hook)" "reasonable_ms (to_ms (at_ns t))"
    and "int (card (players \<rho>)) + 1 < 2 ^ 63"
    and "\<And>u. \<rho> (stream_key hook, hook_client_id hook) = Some u \<Longrightarrow> task_type u = PUBLISHER"
  shows "outcome (\<lambda>w. (view w, rows w)) (K, T) (first_hook P t hook)
    (\<lambda>x LU. (\<exists>\<sigma>. represents (fst LU) \<sigma>)
       \<and> (\<forall>resp. x = Some (Inr (Some resp)) \<longrightarrow> zlm_code resp = ZLM_SUCCESS \<longrightarrow>
            (\<exists>r. publish_granted H \<rho> (stream_key hook) (hook_client_id hook) (get_token hook) r (fst LU))))"
    (is "outcome ?v _ _ ?post")
proof -
  have start: "outcome ?v (K, T) (main_start P fresh_singletons)
    (\<lambda>r LU. LU = (K, T) \<and> (\<forall>sv. r = Inr sv \<longrightarrow>
       sv_cache sv = ready R \<and> nodes_ok (node_config (sv_scheduler sv))))"
    using gate_backend.main_start_frame [OF assms(1), of P K T] assms(3) by blast
  have hook: "outcome ?v (K, T) (do {
      x \<leftarrow> routeHook (service_gate P sv) t hook (sv_scheduler sv) (sv_repo sv); ret (Some (fst x)) }) ?post"
    if sv: "sv_cache sv = ready R" "nodes_ok (node_config (sv_scheduler sv))" for sv
  proof -
    have reg: "registrable \<rho> (publish_task (stream_key hook) (hook_client_id hook) (get_token hook) (hook_protocol hook)
        (at_ns t) (sv_scheduler sv\<lparr>totalPublishReq := totalPublishReq (sv_scheduler sv) + 1\<rparr>))"
      using sv(2) assms(8-11) by (intro publish_registrable) auto
    have "outcome ?v (K, T) (routeHook (service_gate P sv) t hook (sv_scheduler sv) (sv_repo sv))
      (\<lambda>x LU. (\<exists>\<sigma>. represents (fst LU) \<sigma>)
         \<and> (\<forall>resp. fst x = Inr (Some resp) \<longrightarrow> zlm_code resp = ZLM_SUCCESS \<longrightarrow>
              (\<exists>r. publish_granted H \<rho> (stream_key hook) (hook_client_id hook) (get_token hook) r (fst LU))))"
      unfolding service_gate_def sv(1)
      by (rule publish_hook_outcome [OF assms(1,2,4,5) _ assms(7) reg]) (rule assms(6))
    then show ?thesis by (rule outcome_bind) (auto intro: outcome_return)
  qed
  show ?thesis
    unfolding first_hook_def
    by (rule outcome_bind [OF start]) (use assms(5) hook in \<open>auto intro!: outcome_return split: sum.splits\<close>)
qed

theorem publish_end_to_end_witness:
  "(\<exists>sv. run_state (main_start demo_platform fresh_singletons) [] = (Inr sv, []))
   \<and> outcome (\<lambda>w. (mem_view w, set demo_rows)) (Map.empty, set demo_rows)
    (first_hook demo_platform demo_moment demo_publish)
    (\<lambda>x LU. (\<exists>\<sigma>. represents (fst LU) \<sigma>)
       \<and> (\<forall>resp. x = Some (Inr (Some resp)) \<longrightarrow> zlm_code resp = ZLM_SUCCESS \<longrightarrow>
            (\<exists>r. publish_granted (authorised (=) (set demo_rows)) Map.empty (stream_key demo_publish)
                   (hook_client_id demo_publish) (get_token demo_publish) r (fst LU))))"
proof -
  have g: "gate_backend mem_redis mem_view (pf_db demo_platform) (\<lambda>_. set demo_rows) (=)"
    using gate.gate_backend_axioms by (simp add: demo_platform_def)
  show ?thesis
    by (intro conjI demo_starts publish_end_to_end [OF g])
      (auto simp: demo_platform_def demo_json_roundtrip cache_ok_def represents_empty demo_publish_fields
        colon_free_def demo_moment_def demo_ns_def reasonable_ms_def MIN_REASONABLE_MS_def MAX_REASONABLE_MS_def
        duration_cast_def players_def)
qed

end
